theory Spec2Isabelle
  imports Main "HOL-Library.Sublist"
begin

section \<open>The pull-request review bot: a shallow embedding\<close>

text \<open>
  The development follows \<^verbatim>\<open>pr-review-bot/index.js\<close>. Three versions of that file are in
  the sources: the current one (first document of \<^verbatim>\<open>src/unnamed/part_001\<close>), the one of
  \<^verbatim>\<open>src/unnamed/part_000\<close>, and the oldest one (second document of \<^verbatim>\<open>part_001\<close>).
  Definitions without a suffix embed the current version; the suffix \<open>_p0\<close> marks the
  copy of \<^verbatim>\<open>part_000\<close>, the suffix \<open>_old\<close> the oldest copy.

  Strings are lists of 8-bit characters and the model covers ASCII text: on such text a
  character is one UTF-16 code unit of the JavaScript string, \<^verbatim>\<open>length\<close> and
  \<^verbatim>\<open>slice\<close> count characters, \<^verbatim>\<open>toLowerCase\<close> maps \<open>A\<close>..\<open>Z\<close> to \<open>a\<close>..\<open>z\<close>, and the
  white space of \<^verbatim>\<open>trim\<close> and of the regular expression's \<^verbatim>\<open>\s\<close> is tab, line feed,
  vertical tab, form feed, carriage return and space.

  Three names of the source are reserved words here and are changed: the method
  \<^verbatim>\<open>includes\<close> is \<open>includes_str\<close>, the field \<^verbatim>\<open>context\<close> of an annotation is \<open>ctxt\<close>, and
  a file of the parsed diff has the type \<open>file_diff\<close>.
\<close>

subsection \<open>JavaScript string operations\<close>

definition is_space :: "char \<Rightarrow> bool" where
  "is_space c = (c \<in> set [CHR 0x09, CHR 0x0A, CHR 0x0B, CHR 0x0C, CHR 0x0D, CHR '' ''])"

text \<open>\<^verbatim>\<open>s.trim()\<close>\<close>

definition trim :: "string \<Rightarrow> string" where
  "trim s = rev (dropWhile is_space (rev (dropWhile is_space s)))"

text \<open>\<^verbatim>\<open>s.toLowerCase()\<close>\<close>

definition toLowerCase_char :: "char \<Rightarrow> char" where
  "toLowerCase_char c =
     (case map_of (zip ''ABCDEFGHIJKLMNOPQRSTUVWXYZ'' ''abcdefghijklmnopqrstuvwxyz'') c of
        Some d \<Rightarrow> d
      | None \<Rightarrow> c)"

definition toLowerCase :: "string \<Rightarrow> string" where
  "toLowerCase s = map toLowerCase_char s"

text \<open>\<^verbatim>\<open>s.includes(p)\<close>: \<open>p\<close> occurs in \<open>s\<close> as a contiguous run.\<close>

fun includes_str :: "string \<Rightarrow> string \<Rightarrow> bool" where
  "includes_str [] p = (p = [])"
| "includes_str (c # cs) p = (prefix p (c # cs) \<or> includes_str cs p)"

text \<open>\<^verbatim>\<open>s.replace(pat, '')\<close> with a string pattern: only the first occurrence goes.\<close>

fun replace_first :: "string \<Rightarrow> string \<Rightarrow> string" where
  "replace_first pat [] = []"
| "replace_first pat (c # cs) =
     (if prefix pat (c # cs) then drop (length pat) (c # cs) else c # replace_first pat cs)"

subsection \<open>The phrase pattern\<close>

text \<open>
  \<^verbatim>\<open>/([a-zA-Z0-9_\.]+\([^)]+\))|([a-zA-Z0-9_]+\.[a-zA-Z0-9_]+)|([a-zA-Z0-9_]+\s*===\s*[^\s]+)/g\<close>

  Each alternative is embedded as a function from the text at the start position to the
  length of its match there. In every alternative the character that must follow a
  greedy run is outside the run's class, so no shorter run can succeed and the greedy
  run is the only candidate.
\<close>

definition is_word_char :: "char \<Rightarrow> bool" where
  "is_word_char c =
     (c \<in> set ''abcdefghijklmnopqrstuvwxyzABCDEFGHIJKLMNOPQRSTUVWXYZ0123456789_'')"

definition is_ident_char :: "char \<Rightarrow> bool" where
  "is_ident_char c = (is_word_char c \<or> c = CHR ''.'')"

text \<open>\<^verbatim>\<open>[a-zA-Z0-9_\.]+\([^)]+\)\<close>\<close>

definition match_call :: "string \<Rightarrow> nat option" where
  "match_call s =
     (let a = takeWhile is_ident_char s; r1 = dropWhile is_ident_char s in
      if a = [] then None
      else (case r1 of
              [] \<Rightarrow> None
            | c # r2 \<Rightarrow>
                if c \<noteq> CHR ''('' then None
                else (let b = takeWhile (\<lambda>x. x \<noteq> CHR '')'') r2;
                          r3 = dropWhile (\<lambda>x. x \<noteq> CHR '')'') r2 in
                      if b = [] then None
                      else (case r3 of
                              [] \<Rightarrow> None
                            | d # r4 \<Rightarrow> Some (length a + 1 + length b + 1)))))"

text \<open>\<^verbatim>\<open>[a-zA-Z0-9_]+\.[a-zA-Z0-9_]+\<close>\<close>

definition match_member :: "string \<Rightarrow> nat option" where
  "match_member s =
     (let a = takeWhile is_word_char s; r1 = dropWhile is_word_char s in
      if a = [] then None
      else (case r1 of
              [] \<Rightarrow> None
            | c # r2 \<Rightarrow>
                if c \<noteq> CHR ''.'' then None
                else (let b = takeWhile is_word_char r2 in
                      if b = [] then None else Some (length a + 1 + length b))))"

text \<open>\<^verbatim>\<open>[a-zA-Z0-9_]+\s*===\s*[^\s]+\<close>\<close>

definition match_equality :: "string \<Rightarrow> nat option" where
  "match_equality s =
     (let a = takeWhile is_word_char s; r1 = dropWhile is_word_char s;
          w1 = takeWhile is_space r1; r2 = dropWhile is_space r1 in
      if a = [] then None
      else if \<not> prefix ''==='' r2 then None
      else (let r3 = drop 3 r2;
                w2 = takeWhile is_space r3; r4 = dropWhile is_space r3;
                b = takeWhile (\<lambda>x. \<not> is_space x) r4 in
            if b = [] then None
            else Some (length a + length w1 + 3 + length w2 + length b)))"

text \<open>The alternatives are tried in the order written; the first that matches wins.\<close>

definition match_here :: "string \<Rightarrow> nat option" where
  "match_here s =
     (case match_call s of
        Some n \<Rightarrow> Some n
      | None \<Rightarrow> (case match_member s of
                   Some n \<Rightarrow> Some n
                 | None \<Rightarrow> match_equality s))"

text \<open>
  \<^verbatim>\<open>while ((match = regex.exec(codeContext)) !== null) keyPhrases.push(match[0])\<close>:
  the matches from left to right, each search starting where the last match ended. A
  match has at least three characters, so after a match of length \<open>n\<close> at \<open>c # cs\<close> the
  search goes on in \<open>drop n (c # cs) = drop (n - 1) cs\<close>.
\<close>

fun regex_exec_all :: "string \<Rightarrow> string list" where
  "regex_exec_all [] = []"
| "regex_exec_all (c # cs) =
     (case match_here (c # cs) of
        None \<Rightarrow> regex_exec_all cs
      | Some n \<Rightarrow> take n (c # cs) # regex_exec_all (drop (n - 1) cs))"

subsection \<open>The data of the matcher\<close>

text \<open>
  The parsed diff is what the library \<^verbatim>\<open>parse-diff\<close> returns: files with their new path
  \<^verbatim>\<open>to\<close> and their chunks, chunks with their changes. A change is an added line
  (\<^verbatim>\<open>add: true\<close>, with its new-side line number \<^verbatim>\<open>ln\<close>), a deleted line (\<^verbatim>\<open>del: true\<close>,
  with its old-side number \<^verbatim>\<open>ln\<close>) or a context line (\<^verbatim>\<open>normal: true\<close>, with both numbers
  \<^verbatim>\<open>ln1\<close>, \<^verbatim>\<open>ln2\<close>). The library is not part of the repository: the parser is a
  parameter \<open>parse\<close> of the functions that call it.
\<close>

datatype change =
    AddChange string nat
  | DeleteChange string nat
  | NormalChange string nat nat

record chunk =
  changes :: "change list"

record file_diff =
  to :: string
  chunks :: "chunk list"

text \<open>An entry of the language model's answer.\<close>

record llm_comment =
  ctxt :: string
  comment :: string
  suggestion :: string

text \<open>An inline review comment.\<close>

record mapped_comment =
  path :: string
  line :: nat
  side :: string
  body :: string

subsection \<open>\<^verbatim>\<open>mapCommentsToDiff\<close>, current version\<close>

text \<open>Lines 89 to 102: the candidate phrases of a trimmed, lowercased context.\<close>

definition keyPhrases_of :: "string \<Rightarrow> string list" where
  "keyPhrases_of codeContext =
     (let keyPhrases0 =
            (if includes_str codeContext ''{ ... }''
             then [trim (replace_first ''{ ... }'' codeContext)] else [])
      in if length codeContext > 30 \<or> length keyPhrases0 = 0
         then keyPhrases0 @ regex_exec_all codeContext @ [take 30 codeContext]
         else [codeContext])"

text \<open>\<^verbatim>\<open>keyPhrases.sort((a, b) => b.length - a.length)\<close>: stable, longest first.\<close>

definition sort_phrases :: "string list \<Rightarrow> string list" where
  "sort_phrases keyPhrases = sort_key (\<lambda>p. - int (length p)) keyPhrases"

text \<open>
  Lines 111 to 123, the loop over the phrases: the phrase at which the loop breaks, if
  any.
\<close>

fun try_phrases :: "string \<Rightarrow> string list \<Rightarrow> string option" where
  "try_phrases lineContent [] = None"
| "try_phrases lineContent (phrase # rest) =
     (if phrase \<noteq> [] \<and> includes_str lineContent phrase then Some phrase
      else try_phrases lineContent rest)"

text \<open>
  Lines 108 to 123, the body of \<^verbatim>\<open>if (change.add)\<close>: the array of phrases is sorted in
  place, then tried on the normalised line. The result is the array as it is left and
  the phrase that matched.
\<close>

definition match_line :: "string list \<Rightarrow> string \<Rightarrow> string list \<times> string option" where
  "match_line keyPhrases content =
     (let lineContent = toLowerCase (trim content);
          keyPhrases' = sort_phrases keyPhrases
      in (keyPhrases', try_phrases lineContent keyPhrases'))"

definition mk_comment :: "llm_comment \<Rightarrow> string \<Rightarrow> nat \<Rightarrow> mapped_comment" where
  "mk_comment cm file_to ln =
     \<lparr> path = file_to, line = ln, side = ''RIGHT'',
       body = ''Issue: '' @ comment cm @ [CHR 0x0A, CHR 0x0A] @ ''**Suggestion:** ''
              @ suggestion cm \<rparr>"

text \<open>
  The three nested loops. Each returns the array of phrases as the loop leaves it and
  the comment pushed, if \<^verbatim>\<open>matched\<close> was set; \<open>Some\<close> is the \<^verbatim>\<open>break\<close>.
\<close>

fun scan_changes ::
  "llm_comment \<Rightarrow> string \<Rightarrow> string list \<Rightarrow> change list \<Rightarrow> string list \<times> mapped_comment option"
where
  "scan_changes cm file_to keyPhrases [] = (keyPhrases, None)"
| "scan_changes cm file_to keyPhrases (AddChange content ln # rest) =
     (case match_line keyPhrases content of
        (keyPhrases', Some phrase) \<Rightarrow> (keyPhrases', Some (mk_comment cm file_to ln))
      | (keyPhrases', None) \<Rightarrow> scan_changes cm file_to keyPhrases' rest)"
| "scan_changes cm file_to keyPhrases (DeleteChange content ln # rest) =
     scan_changes cm file_to keyPhrases rest"
| "scan_changes cm file_to keyPhrases (NormalChange content ln1 ln2 # rest) =
     scan_changes cm file_to keyPhrases rest"

fun scan_chunks ::
  "llm_comment \<Rightarrow> string \<Rightarrow> string list \<Rightarrow> chunk list \<Rightarrow> string list \<times> mapped_comment option"
where
  "scan_chunks cm file_to keyPhrases [] = (keyPhrases, None)"
| "scan_chunks cm file_to keyPhrases (chunk # rest) =
     (case scan_changes cm file_to keyPhrases (changes chunk) of
        (keyPhrases', Some m) \<Rightarrow> (keyPhrases', Some m)
      | (keyPhrases', None) \<Rightarrow> scan_chunks cm file_to keyPhrases' rest)"

fun scan_files ::
  "llm_comment \<Rightarrow> string list \<Rightarrow> file_diff list \<Rightarrow> string list \<times> mapped_comment option"
where
  "scan_files cm keyPhrases [] = (keyPhrases, None)"
| "scan_files cm keyPhrases (f # rest) =
     (case scan_chunks cm (to f) keyPhrases (chunks f) of
        (keyPhrases', Some m) \<Rightarrow> (keyPhrases', Some m)
      | (keyPhrases', None) \<Rightarrow> scan_files cm keyPhrases' rest)"

text \<open>
  One round of the loop over the comments (lines 84 to 135): \<open>mapped\<close> with the comment
  pushed, or unchanged when nothing matched (then only a warning is printed).
\<close>

definition map_comment ::
  "file_diff list \<Rightarrow> mapped_comment list \<Rightarrow> llm_comment \<Rightarrow> mapped_comment list" where
  "map_comment files mapped cm =
     (let codeContext = toLowerCase (trim (ctxt cm));
          keyPhrases = keyPhrases_of codeContext
      in case snd (scan_files cm keyPhrases files) of
           Some m \<Rightarrow> mapped @ [m]
         | None \<Rightarrow> mapped)"

definition mapCommentsToDiff ::
  "(string \<Rightarrow> file_diff list) \<Rightarrow> string \<Rightarrow> llm_comment list \<Rightarrow> mapped_comment list" where
  "mapCommentsToDiff parse diff llmComments =
     (let files = parse diff in foldl (map_comment files) [] llmComments)"

subsection \<open>\<^verbatim>\<open>mapCommentsToDiff\<close>, the copy of part 000\<close>

text \<open>Lines 80 to 138 of \<^verbatim>\<open>src/unnamed/part_000\<close>, embedded the same way.\<close>

definition keyPhrases_of_p0 :: "string \<Rightarrow> string list" where
  "keyPhrases_of_p0 codeContext =
     (let keyPhrases0 =
            (if includes_str codeContext ''{ ... }''
             then [trim (replace_first ''{ ... }'' codeContext)] else [])
      in if length codeContext > 30 \<or> length keyPhrases0 = 0
         then keyPhrases0 @ regex_exec_all codeContext @ [take 30 codeContext]
         else [codeContext])"

definition sort_phrases_p0 :: "string list \<Rightarrow> string list" where
  "sort_phrases_p0 keyPhrases = sort_key (\<lambda>p. - int (length p)) keyPhrases"

fun try_phrases_p0 :: "string \<Rightarrow> string list \<Rightarrow> string option" where
  "try_phrases_p0 lineContent [] = None"
| "try_phrases_p0 lineContent (phrase # rest) =
     (if phrase \<noteq> [] \<and> includes_str lineContent phrase then Some phrase
      else try_phrases_p0 lineContent rest)"

definition match_line_p0 :: "string list \<Rightarrow> string \<Rightarrow> string list \<times> string option" where
  "match_line_p0 keyPhrases content =
     (let lineContent = toLowerCase (trim content);
          keyPhrases' = sort_phrases_p0 keyPhrases
      in (keyPhrases', try_phrases_p0 lineContent keyPhrases'))"

definition mk_comment_p0 :: "llm_comment \<Rightarrow> string \<Rightarrow> nat \<Rightarrow> mapped_comment" where
  "mk_comment_p0 cm file_to ln =
     \<lparr> path = file_to, line = ln, side = ''RIGHT'',
       body = ''Issue: '' @ comment cm @ [CHR 0x0A, CHR 0x0A] @ ''**Suggestion:** ''
              @ suggestion cm \<rparr>"

fun scan_changes_p0 ::
  "llm_comment \<Rightarrow> string \<Rightarrow> string list \<Rightarrow> change list \<Rightarrow> string list \<times> mapped_comment option"
where
  "scan_changes_p0 cm file_to keyPhrases [] = (keyPhrases, None)"
| "scan_changes_p0 cm file_to keyPhrases (AddChange content ln # rest) =
     (case match_line_p0 keyPhrases content of
        (keyPhrases', Some phrase) \<Rightarrow> (keyPhrases', Some (mk_comment_p0 cm file_to ln))
      | (keyPhrases', None) \<Rightarrow> scan_changes_p0 cm file_to keyPhrases' rest)"
| "scan_changes_p0 cm file_to keyPhrases (DeleteChange content ln # rest) =
     scan_changes_p0 cm file_to keyPhrases rest"
| "scan_changes_p0 cm file_to keyPhrases (NormalChange content ln1 ln2 # rest) =
     scan_changes_p0 cm file_to keyPhrases rest"

fun scan_chunks_p0 ::
  "llm_comment \<Rightarrow> string \<Rightarrow> string list \<Rightarrow> chunk list \<Rightarrow> string list \<times> mapped_comment option"
where
  "scan_chunks_p0 cm file_to keyPhrases [] = (keyPhrases, None)"
| "scan_chunks_p0 cm file_to keyPhrases (chunk # rest) =
     (case scan_changes_p0 cm file_to keyPhrases (changes chunk) of
        (keyPhrases', Some m) \<Rightarrow> (keyPhrases', Some m)
      | (keyPhrases', None) \<Rightarrow> scan_chunks_p0 cm file_to keyPhrases' rest)"

fun scan_files_p0 ::
  "llm_comment \<Rightarrow> string list \<Rightarrow> file_diff list \<Rightarrow> string list \<times> mapped_comment option"
where
  "scan_files_p0 cm keyPhrases [] = (keyPhrases, None)"
| "scan_files_p0 cm keyPhrases (f # rest) =
     (case scan_chunks_p0 cm (to f) keyPhrases (chunks f) of
        (keyPhrases', Some m) \<Rightarrow> (keyPhrases', Some m)
      | (keyPhrases', None) \<Rightarrow> scan_files_p0 cm keyPhrases' rest)"

definition map_comment_p0 ::
  "file_diff list \<Rightarrow> mapped_comment list \<Rightarrow> llm_comment \<Rightarrow> mapped_comment list" where
  "map_comment_p0 files mapped cm =
     (let codeContext = toLowerCase (trim (ctxt cm));
          keyPhrases = keyPhrases_of_p0 codeContext
      in case snd (scan_files_p0 cm keyPhrases files) of
           Some m \<Rightarrow> mapped @ [m]
         | None \<Rightarrow> mapped)"

definition mapCommentsToDiff_p0 ::
  "(string \<Rightarrow> file_diff list) \<Rightarrow> string \<Rightarrow> llm_comment list \<Rightarrow> mapped_comment list" where
  "mapCommentsToDiff_p0 parse diff llmComments =
     (let files = parse diff in foldl (map_comment_p0 files) [] llmComments)"

subsection \<open>\<^verbatim>\<open>mapCommentsToDiff\<close>, the oldest copy\<close>

text \<open>Lines 425 to 483 of \<^verbatim>\<open>src/unnamed/part_001\<close>, embedded the same way.\<close>

definition keyPhrases_of_old :: "string \<Rightarrow> string list" where
  "keyPhrases_of_old codeContext =
     (let keyPhrases0 =
            (if includes_str codeContext ''{ ... }''
             then [trim (replace_first ''{ ... }'' codeContext)] else [])
      in if length codeContext > 30 \<or> length keyPhrases0 = 0
         then keyPhrases0 @ regex_exec_all codeContext @ [take 30 codeContext]
         else [codeContext])"

definition sort_phrases_old :: "string list \<Rightarrow> string list" where
  "sort_phrases_old keyPhrases = sort_key (\<lambda>p. - int (length p)) keyPhrases"

fun try_phrases_old :: "string \<Rightarrow> string list \<Rightarrow> string option" where
  "try_phrases_old lineContent [] = None"
| "try_phrases_old lineContent (phrase # rest) =
     (if phrase \<noteq> [] \<and> includes_str lineContent phrase then Some phrase
      else try_phrases_old lineContent rest)"

definition match_line_old :: "string list \<Rightarrow> string \<Rightarrow> string list \<times> string option" where
  "match_line_old keyPhrases content =
     (let lineContent = toLowerCase (trim content);
          keyPhrases' = sort_phrases_old keyPhrases
      in (keyPhrases', try_phrases_old lineContent keyPhrases'))"

definition mk_comment_old :: "llm_comment \<Rightarrow> string \<Rightarrow> nat \<Rightarrow> mapped_comment" where
  "mk_comment_old cm file_to ln =
     \<lparr> path = file_to, line = ln, side = ''RIGHT'',
       body = ''Issue: '' @ comment cm @ [CHR 0x0A, CHR 0x0A] @ ''**Suggestion:** ''
              @ suggestion cm \<rparr>"

fun scan_changes_old ::
  "llm_comment \<Rightarrow> string \<Rightarrow> string list \<Rightarrow> change list \<Rightarrow> string list \<times> mapped_comment option"
where
  "scan_changes_old cm file_to keyPhrases [] = (keyPhrases, None)"
| "scan_changes_old cm file_to keyPhrases (AddChange content ln # rest) =
     (case match_line_old keyPhrases content of
        (keyPhrases', Some phrase) \<Rightarrow> (keyPhrases', Some (mk_comment_old cm file_to ln))
      | (keyPhrases', None) \<Rightarrow> scan_changes_old cm file_to keyPhrases' rest)"
| "scan_changes_old cm file_to keyPhrases (DeleteChange content ln # rest) =
     scan_changes_old cm file_to keyPhrases rest"
| "scan_changes_old cm file_to keyPhrases (NormalChange content ln1 ln2 # rest) =
     scan_changes_old cm file_to keyPhrases rest"

fun scan_chunks_old ::
  "llm_comment \<Rightarrow> string \<Rightarrow> string list \<Rightarrow> chunk list \<Rightarrow> string list \<times> mapped_comment option"
where
  "scan_chunks_old cm file_to keyPhrases [] = (keyPhrases, None)"
| "scan_chunks_old cm file_to keyPhrases (chunk # rest) =
     (case scan_changes_old cm file_to keyPhrases (changes chunk) of
        (keyPhrases', Some m) \<Rightarrow> (keyPhrases', Some m)
      | (keyPhrases', None) \<Rightarrow> scan_chunks_old cm file_to keyPhrases' rest)"

fun scan_files_old ::
  "llm_comment \<Rightarrow> string list \<Rightarrow> file_diff list \<Rightarrow> string list \<times> mapped_comment option"
where
  "scan_files_old cm keyPhrases [] = (keyPhrases, None)"
| "scan_files_old cm keyPhrases (f # rest) =
     (case scan_chunks_old cm (to f) keyPhrases (chunks f) of
        (keyPhrases', Some m) \<Rightarrow> (keyPhrases', Some m)
      | (keyPhrases', None) \<Rightarrow> scan_files_old cm keyPhrases' rest)"

definition map_comment_old ::
  "file_diff list \<Rightarrow> mapped_comment list \<Rightarrow> llm_comment \<Rightarrow> mapped_comment list" where
  "map_comment_old files mapped cm =
     (let codeContext = toLowerCase (trim (ctxt cm));
          keyPhrases = keyPhrases_of_old codeContext
      in case snd (scan_files_old cm keyPhrases files) of
           Some m \<Rightarrow> mapped @ [m]
         | None \<Rightarrow> mapped)"

definition mapCommentsToDiff_old ::
  "(string \<Rightarrow> file_diff list) \<Rightarrow> string \<Rightarrow> llm_comment list \<Rightarrow> mapped_comment list" where
  "mapCommentsToDiff_old parse diff llmComments =
     (let files = parse diff in foldl (map_comment_old files) [] llmComments)"

subsection \<open>The matcher, as specified\<close>

text \<open>
  The added lines of a parsed diff in diff order (files, then chunks, then changes),
  each with the path of its file; an added line is hit when its trimmed, lowercased text
  contains a non-empty candidate phrase.
\<close>

definition phrase_hits :: "string list \<Rightarrow> string \<Rightarrow> bool" where
  "phrase_hits keyPhrases content =
     (\<exists>p \<in> set keyPhrases. p \<noteq> [] \<and> includes_str (toLowerCase (trim content)) p)"

definition added_of_changes :: "change list \<Rightarrow> (string \<times> nat) list" where
  "added_of_changes chs =
     concat (map (\<lambda>ch. case ch of AddChange content ln \<Rightarrow> [(content, ln)] | _ \<Rightarrow> []) chs)"

definition added_of_chunks :: "chunk list \<Rightarrow> (string \<times> nat) list" where
  "added_of_chunks cs = concat (map (\<lambda>c. added_of_changes (changes c)) cs)"

definition added_lines :: "file_diff list \<Rightarrow> (string \<times> string \<times> nat) list" where
  "added_lines files =
     concat (map (\<lambda>f. map (Pair (to f)) (added_of_chunks (chunks f))) files)"

definition first_hit ::
  "string list \<Rightarrow> file_diff list \<Rightarrow> (string \<times> string \<times> nat) option" where
  "first_hit keyPhrases files =
     find (\<lambda>(p, content, ln). phrase_hits keyPhrases content) (added_lines files)"

definition anchor_of :: "file_diff list \<Rightarrow> llm_comment \<Rightarrow> mapped_comment list" where
  "anchor_of files cm =
     (case first_hit (keyPhrases_of (toLowerCase (trim (ctxt cm)))) files of
        None \<Rightarrow> []
      | Some (p, content, ln) \<Rightarrow> [mk_comment cm p ln])"

subsection \<open>Review payloads\<close>

text \<open>
  The body of the POST to the reviews endpoint. A field that the code leaves out, or
  sets to \<^verbatim>\<open>undefined\<close> (which the JSON serialisation drops), is \<open>None\<close>.
\<close>

record payload =
  event :: string
  review_body :: "string option"
  comments :: "mapped_comment list option"

text \<open>
  \<^verbatim>\<open>submitReview\<close>, current version, lines 143 to 152. \<open>mappedComments\<close> is \<open>None\<close>
  when the caller passes \<^verbatim>\<open>undefined\<close>.
\<close>

definition submitReview_payload :: "mapped_comment list option \<Rightarrow> string \<Rightarrow> payload" where
  "submitReview_payload mappedComments mode =
     (if mode = ''APPROVE''
      then \<lparr> event = mode, review_body = Some ''LGTM! Approving.'', comments = None \<rparr>
      else if mode = ''REQUEST_CHANGES'' \<or> mode = ''COMMENT''
      then \<lparr> event = mode,
             review_body =
               Some ''Automated PR review found critical issues. See inline comments.'',
             comments =
               (case mappedComments of
                  None \<Rightarrow> None
                | Some cs \<Rightarrow> if length cs > 0 then Some cs else None) \<rparr>
      else \<lparr> event = mode, review_body = None, comments = None \<rparr>)"

text \<open>
  \<^verbatim>\<open>approvePullRequest\<close>, lines 176 to 187. The test of \<^verbatim>\<open>GITHUB_TOKEN\<close> repeats the test
  made when the module is loaded (lines 13 to 25), which stops the program before any
  function runs; it cannot fail here.
\<close>

definition approvePullRequest_payload :: "string option \<Rightarrow> payload" where
  "approvePullRequest_payload body_arg =
     (let body' = (case body_arg of
                     None \<Rightarrow> ''LGTM! Approving.''
                   | Some b \<Rightarrow> if b = [] then ''LGTM! Approving.'' else b)
      in \<lparr> event = ''APPROVE'', review_body = Some body', comments = None \<rparr>)"

text \<open>
  \<^verbatim>\<open>submitReview\<close>, oldest version, lines 488 to 494 of \<^verbatim>\<open>part_001\<close>. The approval text
  ends with the character U+2705, here its three UTF-8 bytes.
\<close>

definition submitReview_payload_old :: "mapped_comment list option \<Rightarrow> string \<Rightarrow> payload" where
  "submitReview_payload_old mappedComments mode =
     \<lparr> event = mode,
       review_body =
         Some (if mode = ''APPROVE''
               then ''All issues are resolved. Approving the PR '' @ [CHR 0xE2, CHR 0x9C, CHR 0x85]
               else ''Automated PR review found critical issues. See inline comments.''),
       comments = (if mode = ''REQUEST_CHANGES'' then mappedComments else None) \<rparr>"

text \<open>\<^verbatim>\<open>submitReview\<close> of \<^verbatim>\<open>part_000\<close>, lines 143 to 152.\<close>

definition submitReview_payload_p0 :: "mapped_comment list option \<Rightarrow> string \<Rightarrow> payload" where
  "submitReview_payload_p0 mappedComments mode =
     \<lparr> event = mode,
       review_body =
         Some (if mode = ''APPROVE''
               then ''Automated review: All previous issues are resolved. Approving PR.''
               else ''Automated PR review found critical issues. See inline comments.''),
       comments =
         (if mode = ''REQUEST_CHANGES'' \<or> mode = ''COMMENT''
          then (case mappedComments of
                  None \<Rightarrow> None
                | Some cs \<Rightarrow> if length cs > 0 then Some cs else None)
          else None) \<rparr>"

subsection \<open>The outside world\<close>

text \<open>
  Everything the program asks of its environment is a field of \<open>world\<close>: the answer of
  the pull-request endpoint (\<open>None\<close>: the request fails), of the compare endpoint for a
  base and a head commit, of the chat completion for a diff, what \<^verbatim>\<open>JSON.parse\<close> and the
  destructuring \<^verbatim>\<open>const { comments } = ...\<close> make of a text (\<open>None\<close>: an exception),
  the library's diff parser, and whether a POST of a payload and a write of the cache
  file succeed. The cache file is part of the run's state; an absent, empty or
  undecodable file is \<open>None\<close>, as \<^verbatim>\<open>loadReviewCache\<close> returns \<^verbatim>\<open>null\<close> for each.
\<close>

datatype error =
    MetadataFetchFailed
  | DiffFetchFailed
  | LLMCallFailed
  | JSONDecodeFailed
  | CacheWriteFailed
  | SubmitFailed
  | InvalidEventType

record pr_details =
  head_sha :: string
  base_sha :: string

record review_cache =
  last_commit :: string
  previous_comments :: "mapped_comment list"

record world =
  prDetails_response :: "pr_details option"
  prDiff_response :: "string option"
  compare_response :: "string \<Rightarrow> string \<Rightarrow> string option"
  completion_response :: "string \<Rightarrow> string option"
  jsonParse :: "string \<Rightarrow> llm_comment list option"
  parseDiff :: "string \<Rightarrow> file_diff list"
  post_ok :: "payload \<Rightarrow> bool"
  write_ok :: "review_cache \<Rightarrow> bool"

text \<open>The external calls of a run, in the order made.\<close>

datatype call =
    GetPrDetails
  | GetPrDiff
  | LoadReviewCache
  | GetDiffFromCommits string string
  | GenerateCommentsFromLLM string
  | SaveReviewCache review_cache
  | PostReview payload

record run_state =
  cacheFile :: "review_cache option"
  calls :: "call list"

type_synonym 'a io = "run_state \<Rightarrow> (error + 'a) \<times> run_state"

definition return_io :: "'a \<Rightarrow> 'a io" where
  "return_io x s = (Inr x, s)"

definition throw_io :: "error \<Rightarrow> 'a io" where
  "throw_io e s = (Inl e, s)"

text \<open>Sequencing: an exception of the first step skips the rest.\<close>

definition bind_io :: "'a io \<Rightarrow> ('a \<Rightarrow> 'b io) \<Rightarrow> 'b io" where
  "bind_io m k s = (case m s of (Inl e, s') \<Rightarrow> (Inl e, s') | (Inr x, s') \<Rightarrow> k x s')"

definition called :: "call \<Rightarrow> run_state \<Rightarrow> run_state" where
  "called c s = s\<lparr> calls := calls s @ [c] \<rparr>"

definition getPrDetails :: "world \<Rightarrow> pr_details io" where
  "getPrDetails w s =
     (case prDetails_response w of
        None \<Rightarrow> (Inl MetadataFetchFailed, called GetPrDetails s)
      | Some d \<Rightarrow> (Inr d, called GetPrDetails s))"

definition loadReviewCache :: "review_cache option io" where
  "loadReviewCache s = (Inr (cacheFile s), called LoadReviewCache s)"

definition saveReviewCache :: "world \<Rightarrow> review_cache \<Rightarrow> unit io" where
  "saveReviewCache w data s =
     (if write_ok w data
      then (Inr (), (called (SaveReviewCache data) s)\<lparr> cacheFile := Some data \<rparr>)
      else (Inl CacheWriteFailed, called (SaveReviewCache data) s))"

definition getDiffFromCommits :: "world \<Rightarrow> string \<Rightarrow> string \<Rightarrow> string io" where
  "getDiffFromCommits w base head s =
     (case compare_response w base head of
        None \<Rightarrow> (Inl DiffFetchFailed, called (GetDiffFromCommits base head) s)
      | Some d \<Rightarrow> (Inr d, called (GetDiffFromCommits base head) s))"

text \<open>\<^verbatim>\<open>content.replace(/```json|```/g, '')\<close>\<close>

fun strip_fences :: "string \<Rightarrow> string" where
  "strip_fences [] = []"
| "strip_fences (c # cs) =
     (if prefix ''```json'' (c # cs) then strip_fences (drop 6 cs)
      else if prefix ''```'' (c # cs) then strip_fences (drop 2 cs)
      else c # strip_fences cs)"

text \<open>
  \<^verbatim>\<open>generateCommentsFromLLM\<close> followed by the destructuring of its result (lines 52 to
  78 and 278): what the call returns or throws, then the call as a step of the run.
\<close>

definition llm_answer :: "world \<Rightarrow> string \<Rightarrow> error + llm_comment list" where
  "llm_answer w diff =
     (case completion_response w diff of
        None \<Rightarrow> Inl LLMCallFailed
      | Some content \<Rightarrow>
          (case jsonParse w (trim (strip_fences content)) of
             None \<Rightarrow> Inl JSONDecodeFailed
           | Some cs \<Rightarrow> Inr cs))"

definition generateCommentsFromLLM :: "world \<Rightarrow> string \<Rightarrow> llm_comment list io" where
  "generateCommentsFromLLM w diff s =
     (llm_answer w diff, called (GenerateCommentsFromLLM diff) s)"

definition post_review :: "world \<Rightarrow> payload \<Rightarrow> unit io" where
  "post_review w p s =
     (if post_ok w p then (Inr (), called (PostReview p) s)
      else (Inl SubmitFailed, called (PostReview p) s))"

definition submitReview :: "world \<Rightarrow> mapped_comment list option \<Rightarrow> string \<Rightarrow> unit io" where
  "submitReview w mappedComments mode = post_review w (submitReview_payload mappedComments mode)"

definition approvePullRequest :: "world \<Rightarrow> string option \<Rightarrow> unit io" where
  "approvePullRequest w body_arg = post_review w (approvePullRequest_payload body_arg)"

subsection \<open>\<^verbatim>\<open>main\<close>, current version\<close>

text \<open>
  Lines 264 to 275: the base commit of the diff, or \<open>None\<close> for the early \<^verbatim>\<open>return\<close>.
\<close>

definition baseSha_of :: "pr_details \<Rightarrow> review_cache option \<Rightarrow> string option" where
  "baseSha_of prDetails previousCache =
     (case previousCache of
        None \<Rightarrow> Some (base_sha prDetails)
      | Some pc \<Rightarrow>
          if last_commit pc = head_sha prDetails then None else Some (last_commit pc))"

text \<open>Lines 299 and 300.\<close>

definition relevantFixes_of :: "review_cache \<Rightarrow> mapped_comment list \<Rightarrow> mapped_comment list" where
  "relevantFixes_of pc mapped =
     (let previousLines = map (\<lambda>c. (path c, line c)) (previous_comments pc)
      in filter (\<lambda>c. list_ex (\<lambda>prev. fst prev = path c \<and> snd prev = line c) previousLines)
           mapped)"

text \<open>Lines 281 to 311, after the mapping.\<close>

definition decide ::
  "world \<Rightarrow> string \<Rightarrow> review_cache option \<Rightarrow> mapped_comment list \<Rightarrow> unit io" where
  "decide w currentSha previousCache mapped =
     (case previousCache of
        None \<Rightarrow>
          bind_io (saveReviewCache w \<lparr> last_commit = currentSha, previous_comments = mapped \<rparr>)
            (\<lambda>_. let validEvents = [''REQUEST_CHANGES'', ''APPROVE'', ''COMMENT''];
                      event = (if length mapped > 0 then ''REQUEST_CHANGES'' else ''APPROVE'')
                  in if event \<notin> set validEvents then throw_io InvalidEventType
                     else if event = ''REQUEST_CHANGES'' then submitReview w (Some mapped) event
                     else approvePullRequest w (Some ''Looks good to me. Approving.''))
      | Some pc \<Rightarrow>
          (let relevantFixes = relevantFixes_of pc mapped
           in if length relevantFixes = 0
              then bind_io
                     (saveReviewCache w \<lparr> last_commit = currentSha, previous_comments = [] \<rparr>)
                     (\<lambda>_. approvePullRequest w (Some ''Looks good to me. Approving.''))
              else bind_io
                     (saveReviewCache w
                        \<lparr> last_commit = currentSha, previous_comments = relevantFixes \<rparr>)
                     (\<lambda>_. submitReview w (Some relevantFixes) ''REQUEST_CHANGES'')))"

text \<open>
  Lines 256 to 315. The result \<open>Inl e\<close> is the exception that the \<^verbatim>\<open>catch\<close> of \<^verbatim>\<open>main\<close>
  logs; nothing is rethrown.
\<close>

definition main :: "world \<Rightarrow> unit io" where
  "main w =
     bind_io (getPrDetails w) (\<lambda>prDetails.
       let currentSha = head_sha prDetails in
       bind_io loadReviewCache (\<lambda>previousCache.
         case baseSha_of prDetails previousCache of
           None \<Rightarrow> return_io ()
         | Some baseSha \<Rightarrow>
             bind_io (getDiffFromCommits w baseSha currentSha) (\<lambda>diff.
               bind_io (generateCommentsFromLLM w diff) (\<lambda>comments.
                 let mapped = mapCommentsToDiff (parseDiff w) diff comments
                 in decide w currentSha previousCache mapped))))"

text \<open>A run: \<^verbatim>\<open>main\<close> in a world, from a cache file, with no call made yet.\<close>

definition run_main :: "world \<Rightarrow> review_cache option \<Rightarrow> (error + unit) \<times> run_state" where
  "run_main w cache = main w \<lparr> cacheFile = cache, calls = [] \<rparr>"

definition is_effect :: "call \<Rightarrow> bool" where
  "is_effect c = (case c of SaveReviewCache d \<Rightarrow> True | PostReview p \<Rightarrow> True | _ \<Rightarrow> False)"

subsection \<open>\<^verbatim>\<open>main\<close> of part 000\<close>

text \<open>
  Lines 216 to 262 of \<^verbatim>\<open>src/unnamed/part_000\<close>. Line 221 writes a cache with a fixed
  commit before the cache is loaded; the current version has this line commented out
  (line 261 of \<^verbatim>\<open>part_001\<close>). Lines 226 to 235 and 246 to 247 are those embedded by
  \<open>baseSha_of\<close> and \<open>relevantFixes_of\<close>.
\<close>

definition submitReview_p0 :: "world \<Rightarrow> mapped_comment list option \<Rightarrow> string \<Rightarrow> unit io" where
  "submitReview_p0 w mappedComments mode =
     post_review w (submitReview_payload_p0 mappedComments mode)"

definition decide_p0 ::
  "world \<Rightarrow> string \<Rightarrow> review_cache option \<Rightarrow> mapped_comment list \<Rightarrow> unit io" where
  "decide_p0 w currentSha previousCache mapped =
     (case previousCache of
        None \<Rightarrow>
          bind_io (saveReviewCache w \<lparr> last_commit = currentSha, previous_comments = mapped \<rparr>)
            (\<lambda>_. submitReview_p0 w (Some mapped)
                    (if length mapped > 0 then ''REQUEST_CHANGES'' else ''APPROVE''))
      | Some pc \<Rightarrow>
          (let relevantFixes = relevantFixes_of pc mapped
           in if length relevantFixes = 0
              then bind_io
                     (saveReviewCache w \<lparr> last_commit = currentSha, previous_comments = [] \<rparr>)
                     (\<lambda>_. submitReview_p0 w None ''APPROVE'')
              else bind_io
                     (saveReviewCache w
                        \<lparr> last_commit = currentSha, previous_comments = relevantFixes \<rparr>)
                     (\<lambda>_. submitReview_p0 w (Some relevantFixes) ''REQUEST_CHANGES'')))"

definition main_p0 :: "world \<Rightarrow> unit io" where
  "main_p0 w =
     bind_io (getPrDetails w) (\<lambda>prDetails.
       let currentSha = head_sha prDetails in
       bind_io
         (saveReviewCache w
            \<lparr> last_commit = ''954e5d43af10d2cb37a6621cd0d3c609f408e91a'',
              previous_comments = [] \<rparr>) (\<lambda>_.
         bind_io loadReviewCache (\<lambda>previousCache.
           case baseSha_of prDetails previousCache of
             None \<Rightarrow> return_io ()
           | Some baseSha \<Rightarrow>
               bind_io (getDiffFromCommits w baseSha currentSha) (\<lambda>diff.
                 bind_io (generateCommentsFromLLM w diff) (\<lambda>comments.
                   let mapped = mapCommentsToDiff_p0 (parseDiff w) diff comments
                   in decide_p0 w currentSha previousCache mapped)))))"

definition run_main_p0 :: "world \<Rightarrow> review_cache option \<Rightarrow> (error + unit) \<times> run_state" where
  "run_main_p0 w cache = main_p0 w \<lparr> cacheFile = cache, calls = [] \<rparr>"

subsection \<open>The decision, as specified\<close>

text \<open>
  The comments that stay open after a run: all mapped comments at a first review, the
  mapped comments on an anchor of a prior open comment at a later one. The review that
  goes with them: an approval without comments when none stays open, a request for
  changes with exactly the open comments otherwise.
\<close>

definition open_comments_of ::
  "review_cache option \<Rightarrow> mapped_comment list \<Rightarrow> mapped_comment list" where
  "open_comments_of priorState mapped =
     (case priorState of
        None \<Rightarrow> mapped
      | Some prior \<Rightarrow>
          filter (\<lambda>c. \<exists>prev \<in> set (previous_comments prior).
                        path prev = path c \<and> line prev = line c) mapped)"

definition review_of :: "mapped_comment list \<Rightarrow> payload" where
  "review_of openComments =
     (if openComments = []
      then \<lparr> event = ''APPROVE'', review_body = Some ''Looks good to me. Approving.'',
             comments = None \<rparr>
      else \<lparr> event = ''REQUEST_CHANGES'',
             review_body =
               Some ''Automated PR review found critical issues. See inline comments.'',
             comments = Some openComments \<rparr>)"

subsection \<open>\<^verbatim>\<open>main\<close>, oldest version\<close>

text \<open>Lines 385 to 394 and 508 to 532 of \<^verbatim>\<open>part_001\<close>.\<close>

definition getPrDiff :: "world \<Rightarrow> string io" where
  "getPrDiff w s =
     (case prDiff_response w of
        None \<Rightarrow> (Inl DiffFetchFailed, called GetPrDiff s)
      | Some d \<Rightarrow> (Inr d, called GetPrDiff s))"

definition submitReview_old :: "world \<Rightarrow> mapped_comment list option \<Rightarrow> string \<Rightarrow> unit io" where
  "submitReview_old w mappedComments mode =
     post_review w (submitReview_payload_old mappedComments mode)"

definition keep_comment_old :: "llm_comment \<Rightarrow> bool" where
  "keep_comment_old c =
     (let text = toLowerCase (comment c)
      in \<not> (includes_str text ''class'' \<and> includes_str text ''instance'')
         \<and> \<not> includes_str text ''static method'')"

definition main_old :: "world \<Rightarrow> unit io" where
  "main_old w =
     bind_io (getPrDiff w) (\<lambda>diff.
       bind_io (generateCommentsFromLLM w diff) (\<lambda>comments.
         let filteredComments = filter keep_comment_old comments;
             mapped = mapCommentsToDiff_old (parseDiff w) diff filteredComments
         in if length mapped > 0 then submitReview_old w (Some mapped) ''REQUEST_CHANGES''
            else submitReview_old w (Some []) ''APPROVE''))"

text \<open>A run of the oldest \<^verbatim>\<open>main\<close>, which keeps no cache.\<close>

definition run_main_old :: "world \<Rightarrow> (error + unit) \<times> run_state" where
  "run_main_old w = main_old w \<lparr> cacheFile = None, calls = [] \<rparr>"

subsection \<open>Example data\<close>

text \<open>
  The first scenario of the specification: the diff adds line 42 of \<^verbatim>\<open>utils.js\<close>, the
  answer points at \<^verbatim>\<open>foo.bar(x)\<close>. The content of a change keeps its diff marker, as
  \<^verbatim>\<open>parse-diff\<close> leaves it.
\<close>

definition example_files :: "file_diff list" where
  "example_files =
     [\<lparr> to = ''utils.js'',
        chunks = [\<lparr> changes = [NormalChange '' function f(x) {'' 41 41,
                               DeleteChange ''-  return foo.bar(x);'' 42,
                               AddChange ''+  return Foo.Bar(x);'' 42,
                               AddChange ''+  // uses foo.bar(x) again'' 43] \<rparr>] \<rparr>]"

definition example_parse :: "string \<Rightarrow> file_diff list" where
  "example_parse diff = example_files"

definition example_comment :: llm_comment where
  "example_comment =
     \<lparr> ctxt = ''foo.bar(x)'', comment = ''missing null check'', suggestion = ''add a guard'' \<rparr>"

definition example_mapped :: mapped_comment where
  "example_mapped =
     \<lparr> path = ''utils.js'', line = 42, side = ''RIGHT'',
       body = ''Issue: missing null check'' @ [CHR 0x0A, CHR 0x0A]
              @ ''**Suggestion:** add a guard'' \<rparr>"

definition example_world :: world where
  "example_world =
     \<lparr> prDetails_response = Some \<lparr> head_sha = ''c2'', base_sha = ''c0'' \<rparr>,
       prDiff_response = Some ''diff'',
       compare_response = (\<lambda>base head. Some ''diff''),
       completion_response = (\<lambda>diff. Some ''json''),
       jsonParse = (\<lambda>content. Some [example_comment]),
       parseDiff = example_parse,
       post_ok = (\<lambda>p. True),
       write_ok = (\<lambda>d. True) \<rparr>"

definition example_cache :: "string \<Rightarrow> review_cache" where
  "example_cache sha = \<lparr> last_commit = sha, previous_comments = [example_mapped] \<rparr>"

definition example_world_llm_down :: world where
  "example_world_llm_down = example_world\<lparr> completion_response := (\<lambda>diff. None) \<rparr>"

definition example_world_no_metadata :: world where
  "example_world_no_metadata = example_world\<lparr> prDetails_response := None \<rparr>"

definition example_world_no_diff :: world where
  "example_world_no_diff = example_world\<lparr> compare_response := (\<lambda>base head. None) \<rparr>"

definition example_world_bad_json :: world where
  "example_world_bad_json = example_world\<lparr> jsonParse := (\<lambda>content. None) \<rparr>"

definition example_world_post_down :: world where
  "example_world_post_down = example_world\<lparr> post_ok := (\<lambda>p. False) \<rparr>"

definition empty_context_comment :: llm_comment where
  "empty_context_comment =
     \<lparr> ctxt = [], comment = ''consider adding tests'', suggestion = ''add a test'' \<rparr>"

definition example_long_context :: string where
  "example_long_context = ''if (cfg.enabled) startServer(cfg.port, cfg.host, handlers);''"

definition example_long_line :: string where
  "example_long_line = ''+    if (cfg.enabled) startServer(cfg.port, cfg.host, handlers);''"

definition example_marker_context :: string where
  "example_marker_context = ''function handle(req, res) { ... }''"

section \<open>The string operations\<close>

lemma takeWhile_dropWhile_length:
  "length (takeWhile P xs) + length (dropWhile P xs) = length xs"
  by (induction xs) simp_all

lemma match_call_bounds: "match_call s = Some n \<Longrightarrow> 4 \<le> n \<and> n \<le> length s"
proof -
  assume h: "match_call s = Some n"
  let ?a = "takeWhile is_ident_char s" and ?r1 = "dropWhile is_ident_char s"
  from h have a: "?a \<noteq> []" by (auto simp: match_call_def Let_def split: if_splits)
  from h a obtain r2 where r1: "?r1 = CHR ''('' # r2"
    by (cases ?r1) (auto simp: match_call_def Let_def split: if_splits)
  let ?b = "takeWhile (\<lambda>x. x \<noteq> CHR '')'') r2" and ?r3 = "dropWhile (\<lambda>x. x \<noteq> CHR '')'') r2"
  from h a r1 have b: "?b \<noteq> []" by (auto simp: match_call_def Let_def split: if_splits)
  from h a r1 b have r3: "?r3 \<noteq> []"
    by (cases ?r3) (auto simp: match_call_def Let_def split: if_splits)
  from h a r1 b r3 have n: "n = length ?a + 1 + length ?b + 1"
    by (cases ?r3) (auto simp: match_call_def Let_def split: if_splits)
  have "length ?a + length ?r1 = length s" by (rule takeWhile_dropWhile_length)
  moreover have "length ?r1 = Suc (length r2)" using r1 by simp
  moreover have "length ?b + length ?r3 = length r2" by (rule takeWhile_dropWhile_length)
  moreover have "0 < length ?a" "0 < length ?b" "0 < length ?r3" using a b r3 by simp_all
  ultimately show ?thesis using n by linarith
qed

lemma match_member_bounds: "match_member s = Some n \<Longrightarrow> 3 \<le> n \<and> n \<le> length s"
proof -
  assume h: "match_member s = Some n"
  let ?a = "takeWhile is_word_char s" and ?r1 = "dropWhile is_word_char s"
  from h have a: "?a \<noteq> []" by (auto simp: match_member_def Let_def split: if_splits)
  from h a obtain r2 where r1: "?r1 = CHR ''.'' # r2"
    by (cases ?r1) (auto simp: match_member_def Let_def split: if_splits)
  let ?b = "takeWhile is_word_char r2"
  from h a r1 have b: "?b \<noteq> []" by (auto simp: match_member_def Let_def split: if_splits)
  from h a r1 b have n: "n = length ?a + 1 + length ?b"
    by (auto simp: match_member_def Let_def split: if_splits)
  have "length ?a + length ?r1 = length s" by (rule takeWhile_dropWhile_length)
  moreover have "length ?r1 = Suc (length r2)" using r1 by simp
  moreover have "length ?b \<le> length r2" by (rule length_takeWhile_le)
  moreover have "0 < length ?a" "0 < length ?b" using a b by simp_all
  ultimately show ?thesis using n by linarith
qed

lemma match_equality_bounds: "match_equality s = Some n \<Longrightarrow> 5 \<le> n \<and> n \<le> length s"
proof -
  assume h: "match_equality s = Some n"
  let ?a = "takeWhile is_word_char s" and ?r1 = "dropWhile is_word_char s"
  let ?w1 = "takeWhile is_space ?r1" and ?r2 = "dropWhile is_space ?r1"
  let ?r3 = "drop 3 ?r2"
  let ?w2 = "takeWhile is_space ?r3" and ?r4 = "dropWhile is_space ?r3"
  let ?b = "takeWhile (\<lambda>x. \<not> is_space x) ?r4"
  from h have a: "?a \<noteq> []" by (auto simp: match_equality_def Let_def split: if_splits)
  from h a have p: "prefix ''==='' ?r2"
    by (auto simp: match_equality_def Let_def split: if_splits)
  from h a p have b: "?b \<noteq> []" by (auto simp: match_equality_def Let_def split: if_splits)
  from h a p b have n: "n = length ?a + length ?w1 + 3 + length ?w2 + length ?b"
    by (auto simp: match_equality_def Let_def split: if_splits)
  have "length ?a + length ?r1 = length s" by (rule takeWhile_dropWhile_length)
  moreover have "length ?w1 + length ?r2 = length ?r1" by (rule takeWhile_dropWhile_length)
  moreover have "3 \<le> length ?r2" using p by (auto simp: prefix_def)
  moreover have "length ?r3 = length ?r2 - 3" by simp
  moreover have "length ?w2 + length ?r4 = length ?r3" by (rule takeWhile_dropWhile_length)
  moreover have "length ?b \<le> length ?r4" by (rule length_takeWhile_le)
  moreover have "0 < length ?a" "0 < length ?b" using a b by simp_all
  ultimately show ?thesis using n by linarith
qed

text \<open>A match is not empty and lies within the text, so the search always advances.\<close>

lemma match_here_bounds: "match_here s = Some n \<Longrightarrow> 3 \<le> n \<and> n \<le> length s"
  using match_call_bounds [of s n] match_member_bounds [of s n] match_equality_bounds [of s n]
  by (auto simp: match_here_def split: option.splits)

lemma regex_exec_all_step:
  "regex_exec_all (c # cs) =
     (case match_here (c # cs) of
        None \<Rightarrow> regex_exec_all cs
      | Some n \<Rightarrow> take n (c # cs) # regex_exec_all (drop n (c # cs)))"
proof (cases "match_here (c # cs)")
  case None
  then show ?thesis by simp
next
  case (Some n)
  then have "0 < n" using match_here_bounds [of "c # cs" n] by simp
  then have "drop n (c # cs) = drop (n - 1) cs" by (cases n) simp_all
  then show ?thesis using Some by simp
qed

lemma replace_first_absent: "\<not> includes_str s pat \<Longrightarrow> replace_first pat s = s"
  by (induction s) auto

lemma replace_first_present:
  "pat \<noteq> [] \<Longrightarrow> \<not> includes_str (a @ butlast pat) pat \<Longrightarrow>
     replace_first pat (a @ pat @ b) = a @ b"
proof (induction a)
  case Nil
  then show ?case by (cases pat) simp_all
next
  case (Cons x a)
  have n: "\<not> prefix pat ((x # a) @ butlast pat)" and i: "\<not> includes_str (a @ butlast pat) pat"
    using Cons.prems(2) by simp_all
  have "\<not> prefix pat ((x # a) @ pat @ b)"
  proof
    assume p: "prefix pat ((x # a) @ pat @ b)"
    have l: "length pat \<le> length ((x # a) @ butlast pat)" using Cons.prems(1) by simp
    have "butlast pat @ [last pat] = pat" using Cons.prems(1) by simp
    then have pb: "pat @ b = butlast pat @ (last pat # b)"
      by (metis append.assoc append_Cons append_Nil)
    have e: "(x # a) @ pat @ b = ((x # a) @ butlast pat) @ (last pat # b)"
      by (simp only: append_assoc pb)
    have "prefix pat (((x # a) @ butlast pat) @ (last pat # b))"
      using p by (simp only: e)
    then have "prefix pat ((x # a) @ butlast pat)
        \<or> (\<exists>us. pat = ((x # a) @ butlast pat) @ us)"
      unfolding prefix_append by blast
    then have "prefix pat ((x # a) @ butlast pat)"
    proof
      assume "prefix pat ((x # a) @ butlast pat)"
      then show ?thesis .
    next
      assume "\<exists>us. pat = ((x # a) @ butlast pat) @ us"
      then obtain us where u: "pat = ((x # a) @ butlast pat) @ us" by blast
      then have "length pat = length ((x # a) @ butlast pat) + length us"
        by (metis length_append)
      with l have "length us = 0" by linarith
      then have "us = []" by simp
      then show ?thesis using u by simp
    qed
    then show False using n by simp
  qed
  then show ?case using Cons.IH [OF Cons.prems(1) i] by simp
qed

section \<open>The matcher finds the first added line that is hit\<close>

lemma includes_str_sublist: "includes_str s p \<longleftrightarrow> sublist p s"
  by (induction s) (auto simp: sublist_Cons_right)

lemma try_phrases_Some:
  "try_phrases l kp = Some p \<Longrightarrow> p \<in> set kp \<and> p \<noteq> [] \<and> includes_str l p"
  by (induction kp) (auto split: if_splits)

lemma try_phrases_None:
  "try_phrases l kp = None \<longleftrightarrow> (\<forall>p \<in> set kp. p = [] \<or> \<not> includes_str l p)"
  by (induction kp) auto

lemma set_sort_phrases: "set (sort_phrases kp) = set kp"
  by (simp add: sort_phrases_def)

lemma phrase_hits_set: "set kp = set kp' \<Longrightarrow> phrase_hits kp content = phrase_hits kp' content"
  by (simp add: phrase_hits_def)

lemma match_line_fst: "fst (match_line kp content) = sort_phrases kp"
  by (simp add: match_line_def Let_def)

lemma match_line_None:
  "snd (match_line kp content) = None \<longleftrightarrow> \<not> phrase_hits kp content"
  by (auto simp: match_line_def Let_def try_phrases_None phrase_hits_def set_sort_phrases)

lemma scan_changes_set: "set (fst (scan_changes cm t kp chs)) = set kp"
proof (induction chs arbitrary: kp)
  case Nil
  show ?case by simp
next
  case (Cons ch chs)
  show ?case
  proof (cases ch)
    case (AddChange content ln)
    obtain kp' r where m: "match_line kp content = (kp', r)" by (cases "match_line kp content")
    then have "kp' = sort_phrases kp" using match_line_fst [of kp content] by simp
    then have s: "set kp' = set kp" by (simp add: set_sort_phrases)
    show ?thesis
      using AddChange m s Cons.IH [of kp'] by (cases r) simp_all
  qed (simp_all add: Cons.IH)
qed

lemma scan_changes_snd:
  "snd (scan_changes cm t kp chs) =
     map_option (\<lambda>(content, ln). mk_comment cm t ln)
       (find (\<lambda>(content, ln). phrase_hits kp content) (added_of_changes chs))"
proof (induction chs arbitrary: kp)
  case Nil
  show ?case by (simp add: added_of_changes_def)
next
  case (Cons ch chs)
  show ?case
  proof (cases ch)
    case (AddChange content ln)
    obtain kp' r where m: "match_line kp content = (kp', r)" by (cases "match_line kp content")
    then have "kp' = sort_phrases kp" using match_line_fst [of kp content] by simp
    then have s: "set kp' = set kp" by (simp add: set_sort_phrases)
    have r: "r = None \<longleftrightarrow> \<not> phrase_hits kp content"
      using match_line_None [of kp content] m by simp
    have a: "added_of_changes (ch # chs) = (content, ln) # added_of_changes chs"
      using AddChange by (simp add: added_of_changes_def)
    show ?thesis
    proof (cases r)
      case None
      then show ?thesis
        using AddChange m r a Cons.IH [of kp'] phrase_hits_set [OF s] by simp
    next
      case (Some p)
      then show ?thesis
        using AddChange m r a by simp
    qed
  next
    case (DeleteChange content ln)
    then show ?thesis using Cons.IH [of kp] by (simp add: added_of_changes_def)
  next
    case (NormalChange content l1 l2)
    then show ?thesis using Cons.IH [of kp] by (simp add: added_of_changes_def)
  qed
qed

lemma scan_chunks_set: "set (fst (scan_chunks cm t kp cs)) = set kp"
proof (induction cs arbitrary: kp)
  case Nil
  show ?case by simp
next
  case (Cons c cs)
  obtain kp' r where m: "scan_changes cm t kp (changes c) = (kp', r)"
    by (cases "scan_changes cm t kp (changes c)")
  then have s: "set kp' = set kp" using scan_changes_set [of cm t kp "changes c"] by simp
  show ?case using m s Cons.IH [of kp'] by (cases r) simp_all
qed

lemma find_append_option:
  "find P (xs @ ys) = (case find P xs of None \<Rightarrow> find P ys | Some x \<Rightarrow> Some x)"
  by (induction xs) auto

lemma scan_chunks_snd:
  "snd (scan_chunks cm t kp cs) =
     map_option (\<lambda>(content, ln). mk_comment cm t ln)
       (find (\<lambda>(content, ln). phrase_hits kp content) (added_of_chunks cs))"
proof (induction cs arbitrary: kp)
  case Nil
  show ?case by (simp add: added_of_chunks_def)
next
  case (Cons c cs)
  obtain kp' r where m: "scan_changes cm t kp (changes c) = (kp', r)"
    by (cases "scan_changes cm t kp (changes c)")
  then have s: "set kp' = set kp" using scan_changes_set [of cm t kp "changes c"] by simp
  have r: "r = map_option (\<lambda>(content, ln). mk_comment cm t ln)
       (find (\<lambda>(content, ln). phrase_hits kp content) (added_of_changes (changes c)))"
    using scan_changes_snd [of cm t kp "changes c"] m by simp
  have a: "added_of_chunks (c # cs) = added_of_changes (changes c) @ added_of_chunks cs"
    by (simp add: added_of_chunks_def)
  show ?case
  proof (cases r)
    case None
    then show ?thesis
      using m r a Cons.IH [of kp'] phrase_hits_set [OF s]
      by (simp add: find_append_option split: option.splits)
  next
    case (Some x)
    then show ?thesis
      using m r a by (auto simp: find_append_option split: option.splits)
  qed
qed


lemma scan_files_snd:
  "snd (scan_files cm kp files) =
     map_option (\<lambda>(p, content, ln). mk_comment cm p ln) (first_hit kp files)"
proof (induction files arbitrary: kp)
  case Nil
  show ?case by (simp add: first_hit_def added_lines_def)
next
  case (Cons f files)
  let ?P = "\<lambda>(content, ln). phrase_hits kp content"
  let ?Q = "\<lambda>(p, content, ln). phrase_hits kp content"
  obtain kp' r where m: "scan_chunks cm (to f) kp (chunks f) = (kp', r)"
    by (cases "scan_chunks cm (to f) kp (chunks f)")
  then have s: "set kp' = set kp" using scan_chunks_set [of cm "to f" kp "chunks f"] by simp
  have r: "r = map_option (\<lambda>(content, ln). mk_comment cm (to f) ln)
       (find ?P (added_of_chunks (chunks f)))"
    using scan_chunks_snd [of cm "to f" kp "chunks f"] m by simp
  have fm: "find ?Q (map (Pair t) xs) = map_option (Pair t) (find ?P xs)"
    for t :: string and xs :: "(string \<times> nat) list"
    by (induction xs) auto
  have a: "first_hit kp (f # files) =
       (case find ?P (added_of_chunks (chunks f)) of
          None \<Rightarrow> first_hit kp files
        | Some (content, ln) \<Rightarrow> Some (to f, content, ln))"
    by (simp add: first_hit_def added_lines_def find_append_option fm split: option.splits)
  have e: "first_hit kp' files = first_hit kp files"
    using phrase_hits_set [OF s] by (simp add: first_hit_def)
  show ?case
  proof (cases r)
    case None
    then show ?thesis
      using m r a e Cons.IH [of kp'] by (simp split: option.splits)
  next
    case (Some x)
    then show ?thesis
      using m r a by (auto split: option.splits)
  qed
qed

lemma map_comment_anchor: "map_comment files mapped cm = mapped @ anchor_of files cm"
  by (simp add: map_comment_def anchor_of_def Let_def scan_files_snd split: option.splits)

lemma foldl_map_comment:
  "foldl (map_comment files) acc cms = acc @ concat (map (anchor_of files) cms)"
  by (induction cms arbitrary: acc) (simp_all add: map_comment_anchor)

lemma mapCommentsToDiff_anchor:
  "mapCommentsToDiff parse diff cms = concat (map (anchor_of (parse diff)) cms)"
  by (simp add: mapCommentsToDiff_def Let_def foldl_map_comment)

lemma added_of_changes_mem:
  "(content, ln) \<in> set (added_of_changes chs) \<longleftrightarrow> AddChange content ln \<in> set chs"
  by (induction chs) (auto simp: added_of_changes_def split: change.splits)

lemma added_lines_mem:
  "(p, content, ln) \<in> set (added_lines files) \<longleftrightarrow>
     (\<exists>f \<in> set files. \<exists>c \<in> set (chunks f). to f = p \<and> AddChange content ln \<in> set (changes c))"
proof -
  have c: "(content, ln) \<in> set (added_of_chunks cs) \<longleftrightarrow>
      (\<exists>c \<in> set cs. AddChange content ln \<in> set (changes c))" for cs
    by (simp add: added_of_chunks_def added_of_changes_mem)
  have "(p, content, ln) \<in> set (added_lines files) \<longleftrightarrow>
      (\<exists>f \<in> set files. to f = p \<and> (content, ln) \<in> set (added_of_chunks (chunks f)))"
    by (auto simp: added_lines_def)
  then show ?thesis by (auto simp: c)
qed

lemma first_hit_mem:
  "first_hit kp files = Some x \<Longrightarrow> x \<in> set (added_lines files)"
  unfolding first_hit_def find_Some_iff by (metis nth_mem)

text \<open>
  C6. Every comment that \<^verbatim>\<open>mapCommentsToDiff\<close> returns has side \<^verbatim>\<open>RIGHT\<close>, and its path and
  line are the path of a file of the parsed diff and the new-side line number of an added
  line in one of that file's chunks: the anchor is taken from an added line, never from a
  deleted or a context line.
\<close>

theorem anchoring:
  "\<forall>m \<in> set (mapCommentsToDiff parse diff llmComments).
     side m = ''RIGHT'' \<and>
     (\<exists>f \<in> set (parse diff). \<exists>c \<in> set (chunks f). \<exists>content.
        path m = to f \<and> AddChange content (line m) \<in> set (changes c))"
proof
  fix m
  assume "m \<in> set (mapCommentsToDiff parse diff llmComments)"
  then obtain cm where cm: "m \<in> set (anchor_of (parse diff) cm)"
    by (auto simp: mapCommentsToDiff_anchor)
  then obtain p content ln where
    h: "first_hit (keyPhrases_of (toLowerCase (trim (ctxt cm)))) (parse diff) = Some (p, content, ln)"
    and m: "m = mk_comment cm p ln"
    by (cases "first_hit (keyPhrases_of (toLowerCase (trim (ctxt cm)))) (parse diff)")
       (auto simp: anchor_of_def)
  from first_hit_mem [OF h] have "(p, content, ln) \<in> set (added_lines (parse diff))" .
  then obtain f c where "f \<in> set (parse diff)" "c \<in> set (chunks f)" "to f = p"
      "AddChange content ln \<in> set (changes c)"
    by (auto simp: added_lines_mem)
  then show "side m = ''RIGHT'' \<and>
     (\<exists>f \<in> set (parse diff). \<exists>c \<in> set (chunks f). \<exists>content.
        path m = to f \<and> AddChange content (line m) \<in> set (changes c))"
    using m by (auto simp: mk_comment_def)
qed


theorem anchoring_witness:
  "example_mapped \<in> set (mapCommentsToDiff example_parse ''diff'' [example_comment]) \<and>
   side example_mapped = ''RIGHT'' \<and>
   (\<exists>f \<in> set (example_parse ''diff''). \<exists>c \<in> set (chunks f). \<exists>content.
      path example_mapped = to f \<and> AddChange content (line example_mapped) \<in> set (changes c))"
proof -
  have "mapCommentsToDiff example_parse ''diff'' [example_comment] = [example_mapped]"
    by code_simp
  then have "example_mapped \<in> set (mapCommentsToDiff example_parse ''diff'' [example_comment])"
    by simp
  then show ?thesis
    using anchoring [of example_parse "''diff''" "[example_comment]"] by blast
qed

lemma first_hit_None:
  "first_hit kp files = None \<longleftrightarrow>
     (\<forall>(p, content, ln) \<in> set (added_lines files). \<not> phrase_hits kp content)"
  by (auto simp: first_hit_def find_None_iff)

lemma first_hit_Some:
  "first_hit kp files = Some (p, content, ln) \<Longrightarrow>
     \<exists>before after. added_lines files = before @ (p, content, ln) # after \<and>
        phrase_hits kp content \<and>
        (\<forall>(p', content', ln') \<in> set before. \<not> phrase_hits kp content')"
proof -
  assume "first_hit kp files = Some (p, content, ln)"
  then obtain i where i: "i < length (added_lines files)"
      "added_lines files ! i = (p, content, ln)" "phrase_hits kp content"
      "\<forall>j<i. \<not> (case added_lines files ! j of (p', content', ln') \<Rightarrow> phrase_hits kp content')"
    unfolding first_hit_def find_Some_iff by auto
  let ?xs = "added_lines files"
  have d: "?xs = take i ?xs @ (p, content, ln) # drop (Suc i) ?xs"
    using i(1,2) by (metis id_take_nth_drop)
  have "\<forall>x \<in> set (take i ?xs). \<not> (case x of (p', content', ln') \<Rightarrow> phrase_hits kp content')"
  proof
    fix x assume "x \<in> set (take i ?xs)"
    then obtain j where "j < length (take i ?xs)" "take i ?xs ! j = x"
      by (auto simp: in_set_conv_nth)
    then have "j < i" "?xs ! j = x" using i(1) by auto
    then show "\<not> (case x of (p', content', ln') \<Rightarrow> phrase_hits kp content')"
      using i(4) by auto
  qed
  then show ?thesis using d i(3) by blast
qed

text \<open>
  C5, amended. \<^verbatim>\<open>mapCommentsToDiff\<close> returns, annotation by annotation and in their
  order, what \<open>anchor_of\<close> gives: at most one comment; none exactly when no added line of
  the diff is hit, that is, contains a non-empty candidate phrase in its trimmed,
  lowercased text; otherwise the comment built for the first hit added line in diff order
  (files, chunks, lines), all added lines before it being no hits. Deleted and context
  lines are not looked at, and an annotation without a hit adds nothing to the result.
\<close>

theorem first_hit_wins:
  "mapCommentsToDiff parse diff llmComments = concat (map (anchor_of (parse diff)) llmComments)
   \<and> length (anchor_of files cm) \<le> 1
   \<and> (anchor_of files cm = [] \<longleftrightarrow>
        (\<forall>(p, content, ln) \<in> set (added_lines files).
           \<not> phrase_hits (keyPhrases_of (toLowerCase (trim (ctxt cm)))) content))
   \<and> (anchor_of files cm \<noteq> [] \<longrightarrow>
        (\<exists>before p content ln after.
           added_lines files = before @ (p, content, ln) # after \<and>
           phrase_hits (keyPhrases_of (toLowerCase (trim (ctxt cm)))) content \<and>
           (\<forall>(p', content', ln') \<in> set before.
              \<not> phrase_hits (keyPhrases_of (toLowerCase (trim (ctxt cm)))) content') \<and>
           anchor_of files cm = [mk_comment cm p ln]))"
proof -
  let ?kp = "keyPhrases_of (toLowerCase (trim (ctxt cm)))"
  have a: "mapCommentsToDiff parse diff llmComments
        = concat (map (anchor_of (parse diff)) llmComments)"
    by (rule mapCommentsToDiff_anchor)
  have b: "length (anchor_of files cm) \<le> 1"
    by (simp add: anchor_of_def split: option.splits)
  have c: "anchor_of files cm = [] \<longleftrightarrow>
        (\<forall>(p, content, ln) \<in> set (added_lines files). \<not> phrase_hits ?kp content)"
    using first_hit_None [of ?kp files] by (auto simp: anchor_of_def split: option.splits)
  have d: "anchor_of files cm \<noteq> [] \<longrightarrow>
        (\<exists>before p content ln after.
           added_lines files = before @ (p, content, ln) # after \<and>
           phrase_hits ?kp content \<and>
           (\<forall>(p', content', ln') \<in> set before. \<not> phrase_hits ?kp content') \<and>
           anchor_of files cm = [mk_comment cm p ln])"
  proof
    assume "anchor_of files cm \<noteq> []"
    then obtain p content ln where h: "first_hit ?kp files = Some (p, content, ln)"
      by (cases "first_hit ?kp files") (auto simp: anchor_of_def)
    then have e: "anchor_of files cm = [mk_comment cm p ln]" by (simp add: anchor_of_def)
    from first_hit_Some [OF h] e show "\<exists>before p content ln after.
           added_lines files = before @ (p, content, ln) # after \<and>
           phrase_hits ?kp content \<and>
           (\<forall>(p', content', ln') \<in> set before. \<not> phrase_hits ?kp content') \<and>
           anchor_of files cm = [mk_comment cm p ln]"
      by blast
  qed
  from a b c d show ?thesis by blast
qed

theorem first_hit_wins_witness:
  "mapCommentsToDiff example_parse ''diff'' [example_comment] = [example_mapped] \<and>
   anchor_of example_files example_comment \<noteq> [] \<and>
   (\<exists>before p content ln after.
      added_lines example_files = before @ (p, content, ln) # after \<and>
      phrase_hits (keyPhrases_of (toLowerCase (trim (ctxt example_comment)))) content \<and>
      (\<forall>(p', content', ln') \<in> set before.
         \<not> phrase_hits (keyPhrases_of (toLowerCase (trim (ctxt example_comment)))) content') \<and>
      anchor_of example_files example_comment = [mk_comment example_comment p ln])"
proof -
  have m: "mapCommentsToDiff example_parse ''diff'' [example_comment] = [example_mapped]"
    by code_simp
  have n: "anchor_of example_files example_comment \<noteq> []"
    by code_simp
  show ?thesis
    using m n first_hit_wins [of example_parse "''diff''" "[example_comment]"
        example_files example_comment]
    by blast
qed

text \<open>
  C5, as stated, fails for an annotation whose context is empty: its only candidate
  phrase is the empty string, which every line contains
  (\<^verbatim>\<open>lineContent.includes('')\<close> is true), yet the guard \<^verbatim>\<open>phrase &&\<close> skips it and
  nothing is emitted, though the diff has added lines.
\<close>

theorem empty_phrase_counterexample:
  "keyPhrases_of (toLowerCase (trim (ctxt empty_context_comment))) = [[]]
   \<and> added_lines (example_parse ''diff'')
       = [(''utils.js'', ''+  return Foo.Bar(x);'', 42),
          (''utils.js'', ''+  // uses foo.bar(x) again'', 43)]
   \<and> includes_str (toLowerCase (trim ''+  return Foo.Bar(x);'')) []
   \<and> mapCommentsToDiff example_parse ''diff'' [empty_context_comment] = []"
  by code_simp

section \<open>The order of the phrases\<close>

lemma includes_str_length:
  "includes_str s p \<Longrightarrow> length p \<le> length s \<and> (length p = length s \<longrightarrow> p = s)"
proof -
  assume "includes_str s p"
  then obtain a b where "s = a @ p @ b" by (auto simp: includes_str_sublist sublist_def)
  then show ?thesis by auto
qed

lemma sort_phrases_sorted: "sorted_wrt (\<lambda>a b. length b \<le> length a) (sort_phrases kp)"
proof -
  have "sorted (map (\<lambda>p. - int (length p)) (sort_phrases kp))"
    unfolding sort_phrases_def by (rule sorted_sort_key)
  then show ?thesis by (simp add: sorted_map)
qed

lemma try_phrases_longest:
  "sorted_wrt (\<lambda>a b. length b \<le> length a) kp \<Longrightarrow> try_phrases l kp = Some r \<Longrightarrow>
     \<forall>r' \<in> set kp. r' \<noteq> [] \<and> includes_str l r' \<longrightarrow> length r' \<le> length r"
proof (induction kp)
  case Nil
  then show ?case by simp
next
  case (Cons a kp)
  show ?case
  proof (cases "a \<noteq> [] \<and> includes_str l a")
    case True
    then have "r = a" using Cons.prems(2) by simp
    then show ?thesis using Cons.prems(1) by auto
  next
    case False
    then have "try_phrases l kp = Some r" using Cons.prems(2) by auto
    then show ?thesis using Cons.IH Cons.prems(1) False by auto
  qed
qed

text \<open>
  C8, amended. At every added line the phrases are tried longest first (the array is
  sorted by descending length, with the same elements). If the line contains a candidate
  phrase \<open>p\<close>, and another candidate \<open>q\<close> is a proper substring of \<open>p\<close>, then the loop
  stops at a candidate \<open>r\<close> that the line contains, that is at least as long as \<open>p\<close> and
  as every non-empty candidate the line contains, and that is not \<open>q\<close>; it stops at \<open>p\<close>
  itself when no other candidate at least as long as \<open>p\<close> is in the line.
\<close>

theorem longest_phrase_first:
  assumes "p \<in> set keyPhrases" and "q \<in> set keyPhrases"
    and "includes_str p q" and "q \<noteq> p"
    and "includes_str (toLowerCase (trim content)) p"
  shows "sorted_wrt (\<lambda>a b. length b \<le> length a) (fst (match_line keyPhrases content))
    \<and> set (fst (match_line keyPhrases content)) = set keyPhrases
    \<and> (\<exists>r. snd (match_line keyPhrases content) = Some r
          \<and> r \<in> set keyPhrases
          \<and> includes_str (toLowerCase (trim content)) r
          \<and> length p \<le> length r \<and> r \<noteq> q
          \<and> (\<forall>r' \<in> set keyPhrases.
                r' \<noteq> [] \<and> includes_str (toLowerCase (trim content)) r'
                \<longrightarrow> length r' \<le> length r))
    \<and> ((\<forall>r' \<in> set keyPhrases.
           includes_str (toLowerCase (trim content)) r' \<and> length p \<le> length r' \<longrightarrow> r' = p)
        \<longrightarrow> snd (match_line keyPhrases content) = Some p)"
proof -
  let ?l = "toLowerCase (trim content)"
  let ?kp = "sort_phrases keyPhrases"
  have f: "fst (match_line keyPhrases content) = ?kp" by (rule match_line_fst)
  have s: "snd (match_line keyPhrases content) = try_phrases ?l ?kp"
    by (simp add: match_line_def Let_def)
  have p: "p \<noteq> []" using assms(3,4) by (cases p) auto
  have lt: "length q < length p"
    using includes_str_length [OF assms(3)] assms(4) by (cases "length q = length p") auto
  have "try_phrases ?l ?kp \<noteq> None"
    using assms(1,5) p by (auto simp: try_phrases_None set_sort_phrases)
  then obtain r where r: "try_phrases ?l ?kp = Some r" by auto
  from try_phrases_Some [OF r] have r1: "r \<in> set keyPhrases" "r \<noteq> []" "includes_str ?l r"
    by (simp_all add: set_sort_phrases)
  from try_phrases_longest [OF sort_phrases_sorted r]
  have r2: "\<forall>r' \<in> set keyPhrases. r' \<noteq> [] \<and> includes_str ?l r' \<longrightarrow> length r' \<le> length r"
    by (simp add: set_sort_phrases)
  then have r3: "length p \<le> length r" using assms(1,5) p by blast
  then have r4: "r \<noteq> q" using lt by auto
  have u: "(\<forall>r' \<in> set keyPhrases. includes_str ?l r' \<and> length p \<le> length r' \<longrightarrow> r' = p)
        \<longrightarrow> try_phrases ?l ?kp = Some p"
    using r r1 r3 by auto
  show ?thesis
    using f s r r1 r2 r3 r4 u sort_phrases_sorted [of keyPhrases] set_sort_phrases [of keyPhrases]
    by auto
qed

theorem longest_phrase_first_witness:
  "''foo.bar(x) === 1'' \<in> set (keyPhrases_of ''foo.bar(x) === 1'')
   \<and> ''foo.bar(x)'' \<in> set (keyPhrases_of ''foo.bar(x) === 1'')
   \<and> includes_str ''foo.bar(x) === 1'' ''foo.bar(x)''
   \<and> ''foo.bar(x)'' \<noteq> ''foo.bar(x) === 1''
   \<and> includes_str (toLowerCase (trim ''+    if (Foo.bar(x) === 1) {'')) ''foo.bar(x) === 1''
   \<and> snd (match_line (keyPhrases_of ''foo.bar(x) === 1'') ''+    if (Foo.bar(x) === 1) {'')
       = Some ''foo.bar(x) === 1''"
proof -
  have a: "''foo.bar(x) === 1'' \<in> set (keyPhrases_of ''foo.bar(x) === 1'')" by code_simp
  have b: "''foo.bar(x)'' \<in> set (keyPhrases_of ''foo.bar(x) === 1'')" by code_simp
  have c: "includes_str ''foo.bar(x) === 1'' ''foo.bar(x)''" by code_simp
  have d: "''foo.bar(x)'' \<noteq> ''foo.bar(x) === 1''" by simp
  have e: "includes_str (toLowerCase (trim ''+    if (Foo.bar(x) === 1) {'')) ''foo.bar(x) === 1''"
    by code_simp
  have k: "keyPhrases_of ''foo.bar(x) === 1'' = [''foo.bar(x)'', ''foo.bar(x) === 1'']"
    by code_simp
  have u: "\<forall>r' \<in> set (keyPhrases_of ''foo.bar(x) === 1'').
       includes_str (toLowerCase (trim ''+    if (Foo.bar(x) === 1) {'')) r'
       \<and> length ''foo.bar(x) === 1'' \<le> length r' \<longrightarrow> r' = ''foo.bar(x) === 1''"
    unfolding k by simp
  show ?thesis
    using a b c d e u longest_phrase_first [OF a b c d e] by blast
qed

text \<open>
  C8, as stated, fails when a third candidate is in the line: here the line contains the
  30-character prefix of the context and, inside it, the member access
  \<^verbatim>\<open>cfg.enabled\<close>, but the loop stops at the call expression, which is longer than both.
\<close>

theorem third_phrase_counterexample:
  "''if (cfg.enabled) startserver(c'' \<in> set (keyPhrases_of (toLowerCase (trim example_long_context)))
   \<and> ''cfg.enabled'' \<in> set (keyPhrases_of (toLowerCase (trim example_long_context)))
   \<and> includes_str ''if (cfg.enabled) startserver(c'' ''cfg.enabled''
   \<and> includes_str (toLowerCase (trim example_long_line)) ''if (cfg.enabled) startserver(c''
   \<and> includes_str (toLowerCase (trim example_long_line)) ''cfg.enabled''
   \<and> snd (match_line (keyPhrases_of (toLowerCase (trim example_long_context))) example_long_line)
       = Some ''startserver(cfg.port, cfg.host, handlers)''"
  by code_simp

section \<open>The ellipsis marker\<close>

text \<open>
  C7, amended. When the trimmed, lowercased context contains the marker and is longer
  than 30 characters, the candidate phrases are: the context with the first occurrence
  of the marker removed, trimmed; then the matches of the pattern in the context; then
  the first 30 characters of the context.
\<close>

theorem marker_in_long_context:
  "includes_str codeContext ''{ ... }'' \<Longrightarrow> length codeContext > 30 \<Longrightarrow>
     keyPhrases_of codeContext =
       trim (replace_first ''{ ... }'' codeContext)
       # regex_exec_all codeContext @ [take 30 codeContext]"
  by (simp add: keyPhrases_of_def)

theorem marker_in_long_context_witness:
  "includes_str ''items.foreach(function (item) { ... })'' ''{ ... }''
   \<and> length ''items.foreach(function (item) { ... })'' > 30
   \<and> keyPhrases_of ''items.foreach(function (item) { ... })''
       = [''items.foreach(function (item) )'', ''items.foreach(function (item)'',
          ''items.foreach(function (item) '']"
proof -
  have a: "includes_str ''items.foreach(function (item) { ... })'' ''{ ... }''" by code_simp
  have b: "length ''items.foreach(function (item) { ... })'' > 30" by simp
  have c: "trim (replace_first ''{ ... }'' ''items.foreach(function (item) { ... })'')
        # regex_exec_all ''items.foreach(function (item) { ... })''
        @ [take 30 ''items.foreach(function (item) { ... })'']
       = [''items.foreach(function (item) )'', ''items.foreach(function (item)'',
          ''items.foreach(function (item) '']"
    by code_simp
  show ?thesis using a b c marker_in_long_context [OF a b] by simp
qed

text \<open>
  C7, as stated, fails: the context below contains the marker, and its candidate phrases
  are three, the stripped remainder being the first.
\<close>

theorem marker_counterexample:
  "includes_str (toLowerCase (trim example_marker_context)) ''{ ... }''
   \<and> keyPhrases_of (toLowerCase (trim example_marker_context))
       = [''function handle(req, res)'', ''handle(req, res)'', ''function handle(req, res) { ..'']"
  by code_simp

text \<open>
  When the context with the marker has at most 30 characters, line 101 replaces the
  array, and with it the stripped remainder pushed at line 91, by the whole context.
\<close>

lemma marker_in_short_context:
  "includes_str codeContext ''{ ... }'' \<Longrightarrow> length codeContext \<le> 30 \<Longrightarrow>
     keyPhrases_of codeContext = [codeContext]"
  by (simp add: keyPhrases_of_def)

lemma marker_in_short_context_example:
  "keyPhrases_of (toLowerCase (trim ''if (x) { ... }'')) = [''if (x) { ... }'']"
  by code_simp

section \<open>What a run does\<close>

lemma relevantFixes_of_open:
  "relevantFixes_of pc mapped = open_comments_of (Some pc) mapped"
proof -
  have "list_ex (\<lambda>prev. fst prev = path c \<and> snd prev = line c)
          (map (\<lambda>c. (path c, line c)) (previous_comments pc))
        \<longleftrightarrow> (\<exists>prev \<in> set (previous_comments pc). path prev = path c \<and> line prev = line c)"
    for c :: mapped_comment
    by (auto simp: list_ex_iff)
  then show ?thesis
    by (simp add: relevantFixes_of_def open_comments_of_def Let_def)
qed

lemma llm_answer_error:
  "llm_answer w diff = Inl e \<Longrightarrow> e = LLMCallFailed \<or> e = JSONDecodeFailed"
  by (auto simp: llm_answer_def split: option.splits)

lemma decide_eq:
  "decide w currentSha previousCache mapped s =
     (let d = \<lparr> last_commit = currentSha,
                previous_comments = open_comments_of previousCache mapped \<rparr>;
          p = review_of (open_comments_of previousCache mapped)
      in if write_ok w d
         then (if post_ok w p then Inr () else Inl SubmitFailed,
               s\<lparr> cacheFile := Some d,
                  calls := calls s @ [SaveReviewCache d, PostReview p] \<rparr>)
         else (Inl CacheWriteFailed, s\<lparr> calls := calls s @ [SaveReviewCache d] \<rparr>))"
proof (cases previousCache)
  case None
  show ?thesis
  proof (cases "mapped = []")
    case True
    with None show ?thesis
      by (simp add: decide_def open_comments_of_def review_of_def bind_io_def
          saveReviewCache_def approvePullRequest_def approvePullRequest_payload_def
          post_review_def called_def throw_io_def Let_def)
  next
    case False
    with None show ?thesis
      by (simp add: decide_def open_comments_of_def review_of_def bind_io_def
          saveReviewCache_def submitReview_def submitReview_payload_def
          post_review_def called_def throw_io_def Let_def)
  qed
next
  case (Some pc)
  show ?thesis
  proof (cases "open_comments_of (Some pc) mapped = []")
    case True
    with Some show ?thesis
      by (simp add: decide_def relevantFixes_of_open review_of_def bind_io_def
          saveReviewCache_def approvePullRequest_def approvePullRequest_payload_def
          post_review_def called_def Let_def)
  next
    case False
    with Some show ?thesis
      by (simp add: decide_def relevantFixes_of_open review_of_def bind_io_def
          saveReviewCache_def submitReview_def submitReview_payload_def
          post_review_def called_def Let_def)
  qed
qed

lemma run_main_eq:
  "run_main w cache =
     (case prDetails_response w of
        None \<Rightarrow> (Inl MetadataFetchFailed, \<lparr> cacheFile = cache, calls = [GetPrDetails] \<rparr>)
      | Some prDetails \<Rightarrow>
          (case baseSha_of prDetails cache of
             None \<Rightarrow> (Inr (), \<lparr> cacheFile = cache, calls = [GetPrDetails, LoadReviewCache] \<rparr>)
           | Some baseSha \<Rightarrow>
               (case compare_response w baseSha (head_sha prDetails) of
                  None \<Rightarrow>
                    (Inl DiffFetchFailed,
                     \<lparr> cacheFile = cache,
                       calls = [GetPrDetails, LoadReviewCache,
                                GetDiffFromCommits baseSha (head_sha prDetails)] \<rparr>)
                | Some diff \<Rightarrow>
                    (case llm_answer w diff of
                       Inl e \<Rightarrow>
                         (Inl e,
                          \<lparr> cacheFile = cache,
                            calls = [GetPrDetails, LoadReviewCache,
                                     GetDiffFromCommits baseSha (head_sha prDetails),
                                     GenerateCommentsFromLLM diff] \<rparr>)
                     | Inr llmComments \<Rightarrow>
                         decide w (head_sha prDetails) cache
                           (mapCommentsToDiff (parseDiff w) diff llmComments)
                           \<lparr> cacheFile = cache,
                             calls = [GetPrDetails, LoadReviewCache,
                                      GetDiffFromCommits baseSha (head_sha prDetails),
                                      GenerateCommentsFromLLM diff] \<rparr>))))"
  by (simp add: run_main_def main_def bind_io_def return_io_def getPrDetails_def
      loadReviewCache_def getDiffFromCommits_def generateCommentsFromLLM_def called_def Let_def
      split: option.splits sum.splits)

lemma run_main_pipeline:
  assumes "prDetails_response w = Some prDetails"
    and "baseSha_of prDetails cache = Some baseSha"
    and "compare_response w baseSha (head_sha prDetails) = Some diff"
    and "llm_answer w diff = Inr llmComments"
    and "openComments = open_comments_of cache (mapCommentsToDiff (parseDiff w) diff llmComments)"
    and "d = \<lparr> last_commit = head_sha prDetails, previous_comments = openComments \<rparr>"
  shows "run_main w cache =
     (if write_ok w d
      then (if post_ok w (review_of openComments) then Inr () else Inl SubmitFailed,
            \<lparr> cacheFile = Some d,
              calls = [GetPrDetails, LoadReviewCache,
                       GetDiffFromCommits baseSha (head_sha prDetails),
                       GenerateCommentsFromLLM diff,
                       SaveReviewCache d, PostReview (review_of openComments)] \<rparr>)
      else (Inl CacheWriteFailed,
            \<lparr> cacheFile = cache,
              calls = [GetPrDetails, LoadReviewCache,
                       GetDiffFromCommits baseSha (head_sha prDetails),
                       GenerateCommentsFromLLM diff, SaveReviewCache d] \<rparr>))"
  using assms by (simp add: run_main_eq decide_eq Let_def)

text \<open>
  A POST that fails comes after the write of the cache: the run ends with the exception
  and the cache file already holds the head commit.
\<close>

lemma failed_submission_after_write:
  assumes "prDetails_response w = Some prDetails"
    and "baseSha_of prDetails cache = Some baseSha"
    and "compare_response w baseSha (head_sha prDetails) = Some diff"
    and "llm_answer w diff = Inr llmComments"
    and "openComments = open_comments_of cache (mapCommentsToDiff (parseDiff w) diff llmComments)"
    and "d = \<lparr> last_commit = head_sha prDetails, previous_comments = openComments \<rparr>"
    and "write_ok w d" and "\<not> post_ok w (review_of openComments)"
  shows "fst (run_main w cache) = Inl SubmitFailed
    \<and> cacheFile (snd (run_main w cache)) = Some d"
  using run_main_pipeline [OF assms(1-6)] assms(7,8) by simp

section \<open>The decisions of a run\<close>

text \<open>
  C2 on the current version. With no cache file, when the fetches, the decoding of the answer and the write of
  the cache succeed: the diff is asked from the base commit of the pull request to its
  head commit; the cache written, and left after the run, holds the head commit and all
  mapped comments; the review posted after the write requests changes with the mapped
  comments when there are some, and is an approval without a comments list otherwise.
\<close>

theorem first_review:
  assumes "prDetails_response w = Some prDetails"
    and "compare_response w (base_sha prDetails) (head_sha prDetails) = Some diff"
    and "llm_answer w diff = Inr llmComments"
    and "mapped = mapCommentsToDiff (parseDiff w) diff llmComments"
    and "write_ok w \<lparr> last_commit = head_sha prDetails, previous_comments = mapped \<rparr>"
  shows "calls (snd (run_main w None)) =
           [GetPrDetails, LoadReviewCache,
            GetDiffFromCommits (base_sha prDetails) (head_sha prDetails),
            GenerateCommentsFromLLM diff,
            SaveReviewCache \<lparr> last_commit = head_sha prDetails, previous_comments = mapped \<rparr>,
            PostReview
              (if mapped \<noteq> []
               then \<lparr> event = ''REQUEST_CHANGES'',
                      review_body =
                        Some ''Automated PR review found critical issues. See inline comments.'',
                      comments = Some mapped \<rparr>
               else \<lparr> event = ''APPROVE'',
                      review_body = Some ''Looks good to me. Approving.'',
                      comments = None \<rparr>)]
         \<and> cacheFile (snd (run_main w None))
             = Some \<lparr> last_commit = head_sha prDetails, previous_comments = mapped \<rparr>"
proof -
  have b: "baseSha_of prDetails None = Some (base_sha prDetails)"
    by (simp add: baseSha_of_def)
  have o: "mapped = open_comments_of None (mapCommentsToDiff (parseDiff w) diff llmComments)"
    using assms(4) by (simp add: open_comments_of_def)
  show ?thesis
    using run_main_pipeline [OF assms(1) b assms(2) assms(3) o refl] assms(5)
    by (simp add: review_of_def)
qed

theorem first_review_witness:
  "prDetails_response example_world = Some \<lparr> head_sha = ''c2'', base_sha = ''c0'' \<rparr>
   \<and> compare_response example_world ''c0'' ''c2'' = Some ''diff''
   \<and> llm_answer example_world ''diff'' = Inr [example_comment]
   \<and> mapCommentsToDiff (parseDiff example_world) ''diff'' [example_comment] = [example_mapped]
   \<and> write_ok example_world \<lparr> last_commit = ''c2'', previous_comments = [example_mapped] \<rparr>
   \<and> calls (snd (run_main example_world None)) =
           [GetPrDetails, LoadReviewCache, GetDiffFromCommits ''c0'' ''c2'',
            GenerateCommentsFromLLM ''diff'',
            SaveReviewCache \<lparr> last_commit = ''c2'', previous_comments = [example_mapped] \<rparr>,
            PostReview
              \<lparr> event = ''REQUEST_CHANGES'',
                review_body =
                  Some ''Automated PR review found critical issues. See inline comments.'',
                comments = Some [example_mapped] \<rparr>]
   \<and> cacheFile (snd (run_main example_world None))
       = Some \<lparr> last_commit = ''c2'', previous_comments = [example_mapped] \<rparr>"
proof -
  have a: "prDetails_response example_world = Some \<lparr> head_sha = ''c2'', base_sha = ''c0'' \<rparr>"
    by (simp add: example_world_def)
  have b: "compare_response example_world
             (base_sha \<lparr> head_sha = ''c2'', base_sha = ''c0'' \<rparr>)
             (head_sha \<lparr> head_sha = ''c2'', base_sha = ''c0'' \<rparr>) = Some ''diff''"
    by (simp add: example_world_def)
  have c: "llm_answer example_world ''diff'' = Inr [example_comment]"
    by (simp add: example_world_def llm_answer_def)
  have m: "mapCommentsToDiff (parseDiff example_world) ''diff'' [example_comment] = [example_mapped]"
    by code_simp
  have d: "[example_mapped] = mapCommentsToDiff (parseDiff example_world) ''diff'' [example_comment]"
    using m by simp
  have e: "write_ok example_world
             \<lparr> last_commit = head_sha \<lparr> head_sha = ''c2'', base_sha = ''c0'' \<rparr>,
               previous_comments = [example_mapped] \<rparr>"
    by (simp add: example_world_def)
  show ?thesis
    using a b c m e first_review [OF a b c d e] by simp
qed

text \<open>
  C1. With a cache file whose last reviewed commit is not the head commit, when the
  fetches, the decoding and the write succeed: \<open>relevantFixes\<close> is the list of the mapped
  comments whose path and line are those of some comment of the cache; the diff is
  asked from the last reviewed commit to the head commit; the cache written, and left
  after the run, holds the head commit and \<open>relevantFixes\<close> (the empty list when there
  are none); the review posted is an approval without a comments list when
  \<open>relevantFixes\<close> is empty, and a request for changes with exactly \<open>relevantFixes\<close>
  otherwise.
\<close>

theorem re_review:
  assumes "prDetails_response w = Some prDetails"
    and "last_commit prior \<noteq> head_sha prDetails"
    and "compare_response w (last_commit prior) (head_sha prDetails) = Some diff"
    and "llm_answer w diff = Inr llmComments"
    and "mapped = mapCommentsToDiff (parseDiff w) diff llmComments"
    and "relevantFixes =
           filter (\<lambda>c. \<exists>prev \<in> set (previous_comments prior).
                         path prev = path c \<and> line prev = line c) mapped"
    and "write_ok w \<lparr> last_commit = head_sha prDetails, previous_comments = relevantFixes \<rparr>"
  shows "relevantFixes_of prior mapped = relevantFixes
         \<and> calls (snd (run_main w (Some prior))) =
           [GetPrDetails, LoadReviewCache,
            GetDiffFromCommits (last_commit prior) (head_sha prDetails),
            GenerateCommentsFromLLM diff,
            SaveReviewCache
              \<lparr> last_commit = head_sha prDetails, previous_comments = relevantFixes \<rparr>,
            PostReview
              (if relevantFixes = []
               then \<lparr> event = ''APPROVE'',
                      review_body = Some ''Looks good to me. Approving.'',
                      comments = None \<rparr>
               else \<lparr> event = ''REQUEST_CHANGES'',
                      review_body =
                        Some ''Automated PR review found critical issues. See inline comments.'',
                      comments = Some relevantFixes \<rparr>)]
         \<and> cacheFile (snd (run_main w (Some prior)))
             = Some \<lparr> last_commit = head_sha prDetails, previous_comments = relevantFixes \<rparr>"
proof -
  have b: "baseSha_of prDetails (Some prior) = Some (last_commit prior)"
    using assms(2) by (simp add: baseSha_of_def)
  have o: "relevantFixes
        = open_comments_of (Some prior) (mapCommentsToDiff (parseDiff w) diff llmComments)"
    using assms(5,6) by (simp add: open_comments_of_def)
  have r: "relevantFixes_of prior mapped = relevantFixes"
    using o assms(5) by (simp add: relevantFixes_of_open)
  show ?thesis
    using run_main_pipeline [OF assms(1) b assms(3) assms(4) o refl] assms(7) r
    by (simp add: review_of_def)
qed

theorem re_review_witness:
  "prDetails_response example_world = Some \<lparr> head_sha = ''c2'', base_sha = ''c0'' \<rparr>
   \<and> last_commit (example_cache ''c1'') \<noteq> ''c2''
   \<and> compare_response example_world (last_commit (example_cache ''c1'')) ''c2'' = Some ''diff''
   \<and> llm_answer example_world ''diff'' = Inr [example_comment]
   \<and> mapCommentsToDiff (parseDiff example_world) ''diff'' [example_comment] = [example_mapped]
   \<and> filter (\<lambda>c. \<exists>prev \<in> set (previous_comments (example_cache ''c1'')).
                   path prev = path c \<and> line prev = line c) [example_mapped] = [example_mapped]
   \<and> write_ok example_world \<lparr> last_commit = ''c2'', previous_comments = [example_mapped] \<rparr>
   \<and> calls (snd (run_main example_world (Some (example_cache ''c1'')))) =
           [GetPrDetails, LoadReviewCache, GetDiffFromCommits ''c1'' ''c2'',
            GenerateCommentsFromLLM ''diff'',
            SaveReviewCache \<lparr> last_commit = ''c2'', previous_comments = [example_mapped] \<rparr>,
            PostReview
              \<lparr> event = ''REQUEST_CHANGES'',
                review_body =
                  Some ''Automated PR review found critical issues. See inline comments.'',
                comments = Some [example_mapped] \<rparr>]
   \<and> cacheFile (snd (run_main example_world (Some (example_cache ''c1''))))
       = Some \<lparr> last_commit = ''c2'', previous_comments = [example_mapped] \<rparr>"
proof -
  let ?pd = "\<lparr> head_sha = ''c2'', base_sha = ''c0'' \<rparr>"
  have a: "prDetails_response example_world = Some ?pd"
    by (simp add: example_world_def)
  have n: "last_commit (example_cache ''c1'') \<noteq> head_sha ?pd"
    by (simp add: example_cache_def)
  have b: "compare_response example_world (last_commit (example_cache ''c1'')) (head_sha ?pd)
           = Some ''diff''"
    by (simp add: example_world_def)
  have c: "llm_answer example_world ''diff'' = Inr [example_comment]"
    by (simp add: example_world_def llm_answer_def)
  have m: "mapCommentsToDiff (parseDiff example_world) ''diff'' [example_comment] = [example_mapped]"
    by code_simp
  have d: "[example_mapped] = mapCommentsToDiff (parseDiff example_world) ''diff'' [example_comment]"
    using m by simp
  have f: "filter (\<lambda>c. \<exists>prev \<in> set (previous_comments (example_cache ''c1'')).
                   path prev = path c \<and> line prev = line c) [example_mapped] = [example_mapped]"
    by (simp add: example_cache_def)
  have g: "[example_mapped] = filter (\<lambda>c. \<exists>prev \<in> set (previous_comments (example_cache ''c1'')).
                   path prev = path c \<and> line prev = line c) [example_mapped]"
    using f by simp
  have e: "write_ok example_world
             \<lparr> last_commit = head_sha ?pd, previous_comments = [example_mapped] \<rparr>"
    by (simp add: example_world_def)
  show ?thesis
    using a n b c m f e re_review [OF a n b c d g e] by (simp add: example_cache_def)
qed

text \<open>
  C3, amended. When the cache file holds the head commit as last reviewed commit, the
  run makes two external calls, the fetch of the pull request's metadata and the read
  of the cache file, which it needs to find this out, and nothing else: no diff is
  fetched, the language model is not called, nothing is posted, the cache is not
  written, and \<^verbatim>\<open>main\<close> returns without an exception.
\<close>

theorem up_to_date:
  "prDetails_response w = Some prDetails \<Longrightarrow> last_commit prior = head_sha prDetails \<Longrightarrow>
     run_main w (Some prior) =
       (Inr (), \<lparr> cacheFile = Some prior, calls = [GetPrDetails, LoadReviewCache] \<rparr>)"
  by (simp add: run_main_eq baseSha_of_def)

theorem up_to_date_witness:
  "prDetails_response example_world = Some \<lparr> head_sha = ''c2'', base_sha = ''c0'' \<rparr>
   \<and> last_commit (example_cache ''c2'') = ''c2''
   \<and> run_main example_world (Some (example_cache ''c2'')) =
       (Inr (), \<lparr> cacheFile = Some (example_cache ''c2''),
                  calls = [GetPrDetails, LoadReviewCache] \<rparr>)"
proof -
  let ?pd = "\<lparr> head_sha = ''c2'', base_sha = ''c0'' \<rparr>"
  have a: "prDetails_response example_world = Some ?pd"
    by (simp add: example_world_def)
  have b: "last_commit (example_cache ''c2'') = head_sha ?pd"
    by (simp add: example_cache_def)
  show ?thesis using a b up_to_date [OF a b] by simp
qed

text \<open>
  C3, as stated, fails: the run of an up-to-date pull request has made external calls,
  the first of them the request to the pull-request endpoint.
\<close>

theorem up_to_date_counterexample:
  "last_commit \<lparr> last_commit = ''c2'', previous_comments = [] \<rparr>
     = head_sha \<lparr> head_sha = ''c2'', base_sha = ''c0'' \<rparr>
   \<and> prDetails_response example_world = Some \<lparr> head_sha = ''c2'', base_sha = ''c0'' \<rparr>
   \<and> calls (snd (run_main example_world (Some \<lparr> last_commit = ''c2'', previous_comments = [] \<rparr>)))
       = [GetPrDetails, LoadReviewCache]"
  by (simp add: run_main_eq baseSha_of_def example_world_def)

text \<open>
  C4, amended. When the metadata fetch fails, or the diff fetch, or the call of the
  language model or the decoding of its answer, the run ends with that exception, the
  cache file is as it was, and neither a write of the cache nor a POST of a review is
  among the calls made. Conversely, when a write or a POST is among the calls of a run,
  all of these steps have succeeded: the calls begin with the metadata fetch, the read of
  the cache, the diff fetch, the call of the language model, and then the write of the
  head commit with the open comments computed from the mapped comments, which is
  followed by nothing or by the POST of the review decided from these open comments.
  A run whose POST fails, after all these steps and the write have succeeded, ends with
  the exception of the POST and leaves the cache file written: it holds the head commit
  and the open comments.
\<close>

theorem abort_before_pipeline:
  "(prDetails_response w = None \<longrightarrow>
      fst (run_main w cache) = Inl MetadataFetchFailed
      \<and> cacheFile (snd (run_main w cache)) = cache
      \<and> (\<forall>c \<in> set (calls (snd (run_main w cache))). \<not> is_effect c))
   \<and> (prDetails_response w = Some prDetails \<and> baseSha_of prDetails cache = Some baseSha
       \<and> compare_response w baseSha (head_sha prDetails) = None \<longrightarrow>
      fst (run_main w cache) = Inl DiffFetchFailed
      \<and> cacheFile (snd (run_main w cache)) = cache
      \<and> (\<forall>c \<in> set (calls (snd (run_main w cache))). \<not> is_effect c))
   \<and> (prDetails_response w = Some prDetails \<and> baseSha_of prDetails cache = Some baseSha
       \<and> compare_response w baseSha (head_sha prDetails) = Some diff
       \<and> llm_answer w diff = Inl e \<longrightarrow>
      (e = LLMCallFailed \<or> e = JSONDecodeFailed)
      \<and> fst (run_main w cache) = Inl e
      \<and> cacheFile (snd (run_main w cache)) = cache
      \<and> (\<forall>c \<in> set (calls (snd (run_main w cache))). \<not> is_effect c))
   \<and> (c \<in> set (calls (snd (run_main w cache))) \<and> is_effect c \<longrightarrow>
      (\<exists>prDetails' baseSha' diff' llmComments openComments rest.
         prDetails_response w = Some prDetails'
         \<and> baseSha_of prDetails' cache = Some baseSha'
         \<and> compare_response w baseSha' (head_sha prDetails') = Some diff'
         \<and> llm_answer w diff' = Inr llmComments
         \<and> openComments
             = open_comments_of cache (mapCommentsToDiff (parseDiff w) diff' llmComments)
         \<and> calls (snd (run_main w cache)) =
             [GetPrDetails, LoadReviewCache,
              GetDiffFromCommits baseSha' (head_sha prDetails'),
              GenerateCommentsFromLLM diff',
              SaveReviewCache
                \<lparr> last_commit = head_sha prDetails', previous_comments = openComments \<rparr>]
             @ rest
         \<and> (rest = [] \<or> rest = [PostReview (review_of openComments)])))
   \<and> (prDetails_response w = Some prDetails \<and> baseSha_of prDetails cache = Some baseSha
       \<and> compare_response w baseSha (head_sha prDetails) = Some diff
       \<and> llm_answer w diff = Inr answer
       \<and> write_ok w
             \<lparr> last_commit = head_sha prDetails,
               previous_comments =
                 open_comments_of cache (mapCommentsToDiff (parseDiff w) diff answer) \<rparr>
       \<and> \<not> post_ok w
               (review_of (open_comments_of cache
                  (mapCommentsToDiff (parseDiff w) diff answer))) \<longrightarrow>
      fst (run_main w cache) = Inl SubmitFailed
      \<and> cacheFile (snd (run_main w cache))
          = Some \<lparr> last_commit = head_sha prDetails,
                   previous_comments =
                     open_comments_of cache
                       (mapCommentsToDiff (parseDiff w) diff answer) \<rparr>)"
proof -
  let ?quiet = "cacheFile (snd (run_main w cache)) = cache
      \<and> (\<forall>c \<in> set (calls (snd (run_main w cache))). \<not> is_effect c)"
  have a: "prDetails_response w = None \<longrightarrow>
      fst (run_main w cache) = Inl MetadataFetchFailed \<and> ?quiet"
    by (simp add: run_main_eq is_effect_def)
  have b: "prDetails_response w = Some prDetails \<and> baseSha_of prDetails cache = Some baseSha
       \<and> compare_response w baseSha (head_sha prDetails) = None \<longrightarrow>
      fst (run_main w cache) = Inl DiffFetchFailed \<and> ?quiet"
    by (simp add: run_main_eq is_effect_def)
  have c: "prDetails_response w = Some prDetails \<and> baseSha_of prDetails cache = Some baseSha
       \<and> compare_response w baseSha (head_sha prDetails) = Some diff
       \<and> llm_answer w diff = Inl e \<longrightarrow>
      (e = LLMCallFailed \<or> e = JSONDecodeFailed) \<and> fst (run_main w cache) = Inl e \<and> ?quiet"
    using llm_answer_error [of w diff e] by (simp add: run_main_eq is_effect_def)
  have d: "c \<in> set (calls (snd (run_main w cache))) \<and> is_effect c \<longrightarrow>
      (\<exists>prDetails' baseSha' diff' llmComments openComments rest.
         prDetails_response w = Some prDetails'
         \<and> baseSha_of prDetails' cache = Some baseSha'
         \<and> compare_response w baseSha' (head_sha prDetails') = Some diff'
         \<and> llm_answer w diff' = Inr llmComments
         \<and> openComments
             = open_comments_of cache (mapCommentsToDiff (parseDiff w) diff' llmComments)
         \<and> calls (snd (run_main w cache)) =
             [GetPrDetails, LoadReviewCache,
              GetDiffFromCommits baseSha' (head_sha prDetails'),
              GenerateCommentsFromLLM diff',
              SaveReviewCache
                \<lparr> last_commit = head_sha prDetails', previous_comments = openComments \<rparr>]
             @ rest
         \<and> (rest = [] \<or> rest = [PostReview (review_of openComments)]))"
  proof
    assume h: "c \<in> set (calls (snd (run_main w cache))) \<and> is_effect c"
    obtain pd where pd: "prDetails_response w = Some pd"
      using h by (cases "prDetails_response w") (auto simp: run_main_eq is_effect_def)
    obtain bs where bs: "baseSha_of pd cache = Some bs"
      using h pd by (cases "baseSha_of pd cache") (auto simp: run_main_eq is_effect_def)
    obtain df where df: "compare_response w bs (head_sha pd) = Some df"
      using h pd bs
      by (cases "compare_response w bs (head_sha pd)") (auto simp: run_main_eq is_effect_def)
    obtain cs where cs: "llm_answer w df = Inr cs"
      using h pd bs df by (cases "llm_answer w df") (auto simp: run_main_eq is_effect_def)
    let ?open = "open_comments_of cache (mapCommentsToDiff (parseDiff w) df cs)"
    let ?d = "\<lparr> last_commit = head_sha pd, previous_comments = ?open \<rparr>"
    have "calls (snd (run_main w cache)) =
             [GetPrDetails, LoadReviewCache, GetDiffFromCommits bs (head_sha pd),
              GenerateCommentsFromLLM df, SaveReviewCache ?d]
             @ (if write_ok w ?d then [PostReview (review_of ?open)] else [])"
      using run_main_pipeline [OF pd bs df cs refl refl] by simp
    then show "\<exists>prDetails' baseSha' diff' llmComments openComments rest.
         prDetails_response w = Some prDetails'
         \<and> baseSha_of prDetails' cache = Some baseSha'
         \<and> compare_response w baseSha' (head_sha prDetails') = Some diff'
         \<and> llm_answer w diff' = Inr llmComments
         \<and> openComments
             = open_comments_of cache (mapCommentsToDiff (parseDiff w) diff' llmComments)
         \<and> calls (snd (run_main w cache)) =
             [GetPrDetails, LoadReviewCache,
              GetDiffFromCommits baseSha' (head_sha prDetails'),
              GenerateCommentsFromLLM diff',
              SaveReviewCache
                \<lparr> last_commit = head_sha prDetails', previous_comments = openComments \<rparr>]
             @ rest
         \<and> (rest = [] \<or> rest = [PostReview (review_of openComments)])"
      using pd bs df cs by (intro exI [of _ pd] exI [of _ bs] exI [of _ df] exI [of _ cs]
          exI [of _ ?open]
          exI [of _ "if write_ok w ?d then [PostReview (review_of ?open)] else []"]) simp
  qed
  have f: "prDetails_response w = Some prDetails \<and> baseSha_of prDetails cache = Some baseSha
       \<and> compare_response w baseSha (head_sha prDetails) = Some diff
       \<and> llm_answer w diff = Inr answer
       \<and> write_ok w
             \<lparr> last_commit = head_sha prDetails,
               previous_comments =
                 open_comments_of cache (mapCommentsToDiff (parseDiff w) diff answer) \<rparr>
       \<and> \<not> post_ok w
               (review_of (open_comments_of cache
                  (mapCommentsToDiff (parseDiff w) diff answer))) \<longrightarrow>
      fst (run_main w cache) = Inl SubmitFailed
      \<and> cacheFile (snd (run_main w cache))
          = Some \<lparr> last_commit = head_sha prDetails,
                   previous_comments =
                     open_comments_of cache
                       (mapCommentsToDiff (parseDiff w) diff answer) \<rparr>"
    using failed_submission_after_write [of w prDetails cache baseSha diff answer _ _, OF _ _ _ _ refl refl]
    by blast
  show ?thesis using a b c d f by blast
qed

theorem abort_before_pipeline_witness:
  "prDetails_response example_world_no_metadata = None
   \<and> run_main example_world_no_metadata (Some (example_cache ''c1''))
       = (Inl MetadataFetchFailed,
          \<lparr> cacheFile = Some (example_cache ''c1''), calls = [GetPrDetails] \<rparr>)
   \<and> compare_response example_world_no_diff ''c1'' ''c2'' = None
   \<and> fst (run_main example_world_no_diff (Some (example_cache ''c1''))) = Inl DiffFetchFailed
   \<and> cacheFile (snd (run_main example_world_no_diff (Some (example_cache ''c1''))))
       = Some (example_cache ''c1'')
   \<and> llm_answer example_world_llm_down ''diff'' = Inl LLMCallFailed
   \<and> fst (run_main example_world_llm_down (Some (example_cache ''c1''))) = Inl LLMCallFailed
   \<and> cacheFile (snd (run_main example_world_llm_down (Some (example_cache ''c1''))))
       = Some (example_cache ''c1'')
   \<and> llm_answer example_world_bad_json ''diff'' = Inl JSONDecodeFailed
   \<and> fst (run_main example_world_bad_json None) = Inl JSONDecodeFailed
   \<and> cacheFile (snd (run_main example_world_bad_json None)) = None
   \<and> SaveReviewCache \<lparr> last_commit = ''c2'', previous_comments = [example_mapped] \<rparr>
       \<in> set (calls (snd (run_main example_world None)))
   \<and> is_effect (SaveReviewCache \<lparr> last_commit = ''c2'', previous_comments = [example_mapped] \<rparr>)
   \<and> (\<exists>prDetails' baseSha' diff' llmComments openComments rest.
         prDetails_response example_world = Some prDetails'
         \<and> baseSha_of prDetails' None = Some baseSha'
         \<and> compare_response example_world baseSha' (head_sha prDetails') = Some diff'
         \<and> llm_answer example_world diff' = Inr llmComments
         \<and> openComments
             = open_comments_of None
                 (mapCommentsToDiff (parseDiff example_world) diff' llmComments)
         \<and> calls (snd (run_main example_world None)) =
             [GetPrDetails, LoadReviewCache,
              GetDiffFromCommits baseSha' (head_sha prDetails'),
              GenerateCommentsFromLLM diff',
              SaveReviewCache
                \<lparr> last_commit = head_sha prDetails', previous_comments = openComments \<rparr>]
             @ rest
         \<and> (rest = [] \<or> rest = [PostReview (review_of openComments)]))
   \<and> llm_answer example_world_post_down ''diff'' = Inr [example_comment]
   \<and> \<not> post_ok example_world_post_down (review_of [example_mapped])
   \<and> fst (run_main example_world_post_down None) = Inl SubmitFailed
   \<and> cacheFile (snd (run_main example_world_post_down None))
       = Some \<lparr> last_commit = ''c2'', previous_comments = [example_mapped] \<rparr>"
proof -
  let ?pd = "\<lparr> head_sha = ''c2'', base_sha = ''c0'' \<rparr>"
  let ?c1 = "Some (example_cache ''c1'')"
  have m: "prDetails_response example_world_no_metadata = None"
    by (simp add: example_world_no_metadata_def example_world_def)
  have r1: "run_main example_world_no_metadata ?c1
       = (Inl MetadataFetchFailed, \<lparr> cacheFile = ?c1, calls = [GetPrDetails] \<rparr>)"
    using m by (simp add: run_main_eq)
  have t1: "fst (run_main example_world_no_metadata ?c1) = Inl MetadataFetchFailed
      \<and> cacheFile (snd (run_main example_world_no_metadata ?c1)) = ?c1"
    using m abort_before_pipeline [of example_world_no_metadata ?c1] by blast
  have p2: "prDetails_response example_world_no_diff = Some ?pd"
    by (simp add: example_world_no_diff_def example_world_def)
  have b2: "baseSha_of ?pd ?c1 = Some ''c1''"
    by (simp add: baseSha_of_def example_cache_def)
  have d2: "compare_response example_world_no_diff ''c1'' (head_sha ?pd) = None"
    by (simp add: example_world_no_diff_def example_world_def)
  have t2: "fst (run_main example_world_no_diff ?c1) = Inl DiffFetchFailed
      \<and> cacheFile (snd (run_main example_world_no_diff ?c1)) = ?c1"
    using p2 b2 d2 abort_before_pipeline [of example_world_no_diff ?c1 ?pd "''c1''"]
    by blast
  have p3: "prDetails_response example_world_llm_down = Some ?pd"
    by (simp add: example_world_llm_down_def example_world_def)
  have d3: "compare_response example_world_llm_down ''c1'' (head_sha ?pd) = Some ''diff''"
    by (simp add: example_world_llm_down_def example_world_def)
  have l3: "llm_answer example_world_llm_down ''diff'' = Inl LLMCallFailed"
    by (simp add: llm_answer_def example_world_llm_down_def example_world_def)
  have t3: "fst (run_main example_world_llm_down ?c1) = Inl LLMCallFailed
      \<and> cacheFile (snd (run_main example_world_llm_down ?c1)) = ?c1"
    using p3 b2 d3 l3
      abort_before_pipeline [of example_world_llm_down ?c1 ?pd "''c1''" "''diff''" LLMCallFailed]
    by blast
  have p4: "prDetails_response example_world_bad_json = Some ?pd"
    by (simp add: example_world_bad_json_def example_world_def)
  have b4: "baseSha_of ?pd None = Some ''c0''"
    by (simp add: baseSha_of_def)
  have d4: "compare_response example_world_bad_json ''c0'' (head_sha ?pd) = Some ''diff''"
    by (simp add: example_world_bad_json_def example_world_def)
  have l4: "llm_answer example_world_bad_json ''diff'' = Inl JSONDecodeFailed"
    by (simp add: llm_answer_def example_world_bad_json_def example_world_def)
  have t4: "fst (run_main example_world_bad_json None) = Inl JSONDecodeFailed
      \<and> cacheFile (snd (run_main example_world_bad_json None)) = None"
    using p4 b4 d4 l4
      abort_before_pipeline [of example_world_bad_json None ?pd "''c0''" "''diff''"
        JSONDecodeFailed]
    by blast
  have mp: "mapCommentsToDiff (parseDiff example_world) ''diff'' [example_comment]
      = [example_mapped]"
    by code_simp
  have r5: "calls (snd (run_main example_world None)) =
      [GetPrDetails, LoadReviewCache, GetDiffFromCommits ''c0'' ''c2'',
       GenerateCommentsFromLLM ''diff'',
       SaveReviewCache \<lparr> last_commit = ''c2'', previous_comments = [example_mapped] \<rparr>,
       PostReview (review_of [example_mapped])]"
    using mp
    by (simp add: run_main_eq decide_eq baseSha_of_def llm_answer_def open_comments_of_def
        example_world_def Let_def)
  let ?save = "SaveReviewCache \<lparr> last_commit = ''c2'', previous_comments = [example_mapped] \<rparr>"
  have s5: "?save \<in> set (calls (snd (run_main example_world None))) \<and> is_effect ?save"
    using r5 by (simp add: is_effect_def)
  have t5: "(\<exists>prDetails' baseSha' diff' llmComments openComments rest.
         prDetails_response example_world = Some prDetails'
         \<and> baseSha_of prDetails' None = Some baseSha'
         \<and> compare_response example_world baseSha' (head_sha prDetails') = Some diff'
         \<and> llm_answer example_world diff' = Inr llmComments
         \<and> openComments
             = open_comments_of None
                 (mapCommentsToDiff (parseDiff example_world) diff' llmComments)
         \<and> calls (snd (run_main example_world None)) =
             [GetPrDetails, LoadReviewCache,
              GetDiffFromCommits baseSha' (head_sha prDetails'),
              GenerateCommentsFromLLM diff',
              SaveReviewCache
                \<lparr> last_commit = head_sha prDetails', previous_comments = openComments \<rparr>]
             @ rest
         \<and> (rest = [] \<or> rest = [PostReview (review_of openComments)]))"
    using s5 abort_before_pipeline [of example_world None ?pd "''c0''" "''diff''"
        LLMCallFailed ?save]
    by simp
  have p6: "prDetails_response example_world_post_down = Some ?pd"
    by (simp add: example_world_post_down_def example_world_def)
  have d6: "compare_response example_world_post_down ''c0'' (head_sha ?pd) = Some ''diff''"
    by (simp add: example_world_post_down_def example_world_def)
  have l6: "llm_answer example_world_post_down ''diff'' = Inr [example_comment]"
    by (simp add: llm_answer_def example_world_post_down_def example_world_def)
  have mp6: "mapCommentsToDiff (parseDiff example_world_post_down) ''diff'' [example_comment]
      = [example_mapped]"
    using mp by (simp add: example_world_post_down_def example_world_def)
  have o6: "open_comments_of None
        (mapCommentsToDiff (parseDiff example_world_post_down) ''diff'' [example_comment])
      = [example_mapped]"
    using mp6 by (simp add: open_comments_of_def)
  have w6: "write_ok example_world_post_down
      \<lparr> last_commit = head_sha ?pd, previous_comments = [example_mapped] \<rparr>"
    by (simp add: example_world_post_down_def example_world_def)
  have n6: "\<not> post_ok example_world_post_down (review_of [example_mapped])"
    by (simp add: example_world_post_down_def example_world_def)
  have t6: "fst (run_main example_world_post_down None) = Inl SubmitFailed
      \<and> cacheFile (snd (run_main example_world_post_down None))
          = Some \<lparr> last_commit = ''c2'', previous_comments = [example_mapped] \<rparr>"
    using p6 b4 d6 l6 o6 w6 n6
      abort_before_pipeline [where w = example_world_post_down and cache = None
        and prDetails = ?pd and baseSha = "''c0''" and diff = "''diff''"
        and answer = "[example_comment]" and e = LLMCallFailed and c = ?save]
    by simp
  show ?thesis
    using m r1 t1 d2 t2 l3 t3 l4 t4 s5 t5 l6 n6 t6 by simp
qed

text \<open>
  C4, as stated, fails for a run that a failing POST aborts: the cache file, absent
  before the run, holds the head commit and the mapped comment after it, and the next
  run, finding the head commit there, stops without posting anything.
\<close>

theorem failed_submission_counterexample:
  "\<not> post_ok example_world_post_down (review_of [example_mapped])
   \<and> run_main example_world_post_down None =
       (Inl SubmitFailed,
        \<lparr> cacheFile = Some \<lparr> last_commit = ''c2'', previous_comments = [example_mapped] \<rparr>,
          calls = [GetPrDetails, LoadReviewCache, GetDiffFromCommits ''c0'' ''c2'',
                   GenerateCommentsFromLLM ''diff'',
                   SaveReviewCache
                     \<lparr> last_commit = ''c2'', previous_comments = [example_mapped] \<rparr>,
                   PostReview (review_of [example_mapped])] \<rparr>)
   \<and> run_main example_world_post_down
         (Some \<lparr> last_commit = ''c2'', previous_comments = [example_mapped] \<rparr>) =
       (Inr (),
        \<lparr> cacheFile = Some \<lparr> last_commit = ''c2'', previous_comments = [example_mapped] \<rparr>,
          calls = [GetPrDetails, LoadReviewCache] \<rparr>)"
proof -
  have m: "mapCommentsToDiff example_parse ''diff'' [example_comment] = [example_mapped]"
    by code_simp
  show ?thesis
    using m
    by (simp add: run_main_eq decide_eq baseSha_of_def llm_answer_def open_comments_of_def
        example_world_post_down_def example_world_def Let_def)
qed

section \<open>The three copies of the matcher\<close>

lemma try_phrases_p0_eq: "try_phrases_p0 l kp = try_phrases l kp"
  by (induction kp) simp_all

lemma match_line_p0_eq: "match_line_p0 kp content = match_line kp content"
  by (simp add: match_line_p0_def match_line_def sort_phrases_p0_def sort_phrases_def
      try_phrases_p0_eq)

lemma mk_comment_p0_eq: "mk_comment_p0 cm t ln = mk_comment cm t ln"
  by (simp add: mk_comment_p0_def mk_comment_def)

lemma scan_changes_p0_eq: "scan_changes_p0 cm t kp chs = scan_changes cm t kp chs"
proof (induction chs arbitrary: kp)
  case Nil
  show ?case by simp
next
  case (Cons ch chs)
  show ?case
    by (cases ch) (simp_all add: match_line_p0_eq mk_comment_p0_eq Cons.IH
        split: prod.splits option.splits)
qed

lemma scan_chunks_p0_eq: "scan_chunks_p0 cm t kp cs = scan_chunks cm t kp cs"
  by (induction cs arbitrary: kp)
     (simp_all add: scan_changes_p0_eq split: prod.splits option.splits)

lemma scan_files_p0_eq: "scan_files_p0 cm kp fs = scan_files cm kp fs"
  by (induction fs arbitrary: kp)
     (simp_all add: scan_chunks_p0_eq split: prod.splits option.splits)

lemma map_comment_p0_eq: "map_comment_p0 files mapped cm = map_comment files mapped cm"
  by (simp add: map_comment_p0_def map_comment_def keyPhrases_of_p0_def keyPhrases_of_def
      scan_files_p0_eq)

lemma mapCommentsToDiff_p0_eq:
  "mapCommentsToDiff_p0 parse diff llmComments = mapCommentsToDiff parse diff llmComments"
proof -
  have "map_comment_p0 files = map_comment files" for files
    by (intro ext) (rule map_comment_p0_eq)
  then show ?thesis by (simp add: mapCommentsToDiff_p0_def mapCommentsToDiff_def)
qed

lemma try_phrases_old_eq: "try_phrases_old l kp = try_phrases l kp"
  by (induction kp) simp_all

lemma match_line_old_eq: "match_line_old kp content = match_line kp content"
  by (simp add: match_line_old_def match_line_def sort_phrases_old_def sort_phrases_def
      try_phrases_old_eq)

lemma mk_comment_old_eq: "mk_comment_old cm t ln = mk_comment cm t ln"
  by (simp add: mk_comment_old_def mk_comment_def)

lemma scan_changes_old_eq: "scan_changes_old cm t kp chs = scan_changes cm t kp chs"
proof (induction chs arbitrary: kp)
  case Nil
  show ?case by simp
next
  case (Cons ch chs)
  show ?case
    by (cases ch) (simp_all add: match_line_old_eq mk_comment_old_eq Cons.IH
        split: prod.splits option.splits)
qed

lemma scan_chunks_old_eq: "scan_chunks_old cm t kp cs = scan_chunks cm t kp cs"
  by (induction cs arbitrary: kp)
     (simp_all add: scan_changes_old_eq split: prod.splits option.splits)

lemma scan_files_old_eq: "scan_files_old cm kp fs = scan_files cm kp fs"
  by (induction fs arbitrary: kp)
     (simp_all add: scan_chunks_old_eq split: prod.splits option.splits)

lemma map_comment_old_eq: "map_comment_old files mapped cm = map_comment files mapped cm"
  by (simp add: map_comment_old_def map_comment_def keyPhrases_of_old_def keyPhrases_of_def
      scan_files_old_eq)

lemma mapCommentsToDiff_old_eq:
  "mapCommentsToDiff_old parse diff llmComments = mapCommentsToDiff parse diff llmComments"
proof -
  have "map_comment_old files = map_comment files" for files
    by (intro ext) (rule map_comment_old_eq)
  then show ?thesis by (simp add: mapCommentsToDiff_old_def mapCommentsToDiff_def)
qed

text \<open>
  C10. The copy of \<^verbatim>\<open>mapCommentsToDiff\<close> in \<^verbatim>\<open>part_000\<close> and the oldest copy in
  \<^verbatim>\<open>part_001\<close> return, for every parser, diff text and list of annotations, the list
  that the current version returns.
\<close>

theorem copies_agree:
  "mapCommentsToDiff_p0 parse diff llmComments = mapCommentsToDiff parse diff llmComments
   \<and> mapCommentsToDiff_old parse diff llmComments = mapCommentsToDiff parse diff llmComments"
  by (simp add: mapCommentsToDiff_p0_eq mapCommentsToDiff_old_eq)

theorem copies_agree_witness:
  "mapCommentsToDiff example_parse ''diff'' [example_comment, empty_context_comment]
     = [example_mapped]
   \<and> mapCommentsToDiff_p0 example_parse ''diff'' [example_comment, empty_context_comment]
     = [example_mapped]
   \<and> mapCommentsToDiff_old example_parse ''diff'' [example_comment, empty_context_comment]
     = [example_mapped]"
proof -
  have "mapCommentsToDiff example_parse ''diff'' [example_comment, empty_context_comment]
     = [example_mapped]"
    by code_simp
  then show ?thesis
    using copies_agree [of example_parse "''diff''" "[example_comment, empty_context_comment]"]
    by simp
qed

section \<open>The fixed cache of part 000\<close>

lemma relevantFixes_of_no_previous:
  "previous_comments pc = [] \<Longrightarrow> relevantFixes_of pc mapped = []"
  by (simp add: relevantFixes_of_def)

lemma run_main_p0_eq:
  "run_main_p0 w cache =
     (let fixed = \<lparr> last_commit = ''954e5d43af10d2cb37a6621cd0d3c609f408e91a'',
                    previous_comments = [] \<rparr>
      in case prDetails_response w of
           None \<Rightarrow> (Inl MetadataFetchFailed, \<lparr> cacheFile = cache, calls = [GetPrDetails] \<rparr>)
         | Some prDetails \<Rightarrow>
             if \<not> write_ok w fixed
             then (Inl CacheWriteFailed,
                   \<lparr> cacheFile = cache, calls = [GetPrDetails, SaveReviewCache fixed] \<rparr>)
             else if last_commit fixed = head_sha prDetails
             then (Inr (),
                   \<lparr> cacheFile = Some fixed,
                     calls = [GetPrDetails, SaveReviewCache fixed, LoadReviewCache] \<rparr>)
             else (case compare_response w (last_commit fixed) (head_sha prDetails) of
                     None \<Rightarrow>
                       (Inl DiffFetchFailed,
                        \<lparr> cacheFile = Some fixed,
                          calls = [GetPrDetails, SaveReviewCache fixed, LoadReviewCache,
                                   GetDiffFromCommits (last_commit fixed) (head_sha prDetails)] \<rparr>)
                   | Some diff \<Rightarrow>
                       (case llm_answer w diff of
                          Inl e \<Rightarrow>
                            (Inl e,
                             \<lparr> cacheFile = Some fixed,
                               calls = [GetPrDetails, SaveReviewCache fixed, LoadReviewCache,
                                        GetDiffFromCommits (last_commit fixed)
                                          (head_sha prDetails),
                                        GenerateCommentsFromLLM diff] \<rparr>)
                        | Inr llmComments \<Rightarrow>
                            (let d = \<lparr> last_commit = head_sha prDetails,
                                        previous_comments = [] \<rparr>;
                                 p = submitReview_payload_p0 None ''APPROVE''
                             in if \<not> write_ok w d
                                then (Inl CacheWriteFailed,
                                      \<lparr> cacheFile = Some fixed,
                                        calls = [GetPrDetails, SaveReviewCache fixed,
                                                 LoadReviewCache,
                                                 GetDiffFromCommits (last_commit fixed)
                                                   (head_sha prDetails),
                                                 GenerateCommentsFromLLM diff,
                                                 SaveReviewCache d] \<rparr>)
                                else (if post_ok w p then Inr () else Inl SubmitFailed,
                                      \<lparr> cacheFile = Some d,
                                        calls = [GetPrDetails, SaveReviewCache fixed,
                                                 LoadReviewCache,
                                                 GetDiffFromCommits (last_commit fixed)
                                                   (head_sha prDetails),
                                                 GenerateCommentsFromLLM diff,
                                                 SaveReviewCache d, PostReview p] \<rparr>)))))"
  by (simp add: run_main_p0_def main_p0_def decide_p0_def bind_io_def return_io_def
      getPrDetails_def loadReviewCache_def saveReviewCache_def getDiffFromCommits_def
      generateCommentsFromLLM_def submitReview_p0_def post_review_def called_def
      baseSha_of_def relevantFixes_of_no_previous Let_def
      split: option.splits sum.splits)

text \<open>
  Whatever the cache file was, and whatever the language model found, a run of the
  \<^verbatim>\<open>main\<close> of \<^verbatim>\<open>part_000\<close> asks for no diff from the base commit of the pull request and
  posts nothing but an approval.
\<close>

lemma main_p0_calls:
  "(GetDiffFromCommits base head \<in> set (calls (snd (run_main_p0 w cache)))
      \<longrightarrow> base = ''954e5d43af10d2cb37a6621cd0d3c609f408e91a'')
   \<and> (PostReview p \<in> set (calls (snd (run_main_p0 w cache)))
      \<longrightarrow> event p = ''APPROVE'' \<and> comments p = None)"
  by (auto simp: run_main_p0_eq submitReview_payload_p0_def Let_def
      split: option.splits sum.splits if_splits)

text \<open>
  C2 on the copy of \<^verbatim>\<open>part_000\<close>. With no cache file, a head commit \<^verbatim>\<open>c2\<close>, a base
  commit \<^verbatim>\<open>c0\<close> and one mapped comment, the run writes the fixed cache, loads it, asks
  for the diff from the fixed commit, writes a cache without comments and posts an
  approval: it is not a first review from the base commit, no changes are requested and
  the mapped comment is not kept.
\<close>

theorem hard_coded_cache_p0:
  "mapCommentsToDiff_p0 (parseDiff example_world) ''diff'' [example_comment] = [example_mapped]
   \<and> run_main_p0 example_world None =
       (Inr (),
        \<lparr> cacheFile = Some \<lparr> last_commit = ''c2'', previous_comments = [] \<rparr>,
          calls = [GetPrDetails,
                   SaveReviewCache
                     \<lparr> last_commit = ''954e5d43af10d2cb37a6621cd0d3c609f408e91a'',
                       previous_comments = [] \<rparr>,
                   LoadReviewCache,
                   GetDiffFromCommits ''954e5d43af10d2cb37a6621cd0d3c609f408e91a'' ''c2'',
                   GenerateCommentsFromLLM ''diff'',
                   SaveReviewCache \<lparr> last_commit = ''c2'', previous_comments = [] \<rparr>,
                   PostReview
                     \<lparr> event = ''APPROVE'',
                       review_body =
                         Some ''Automated review: All previous issues are resolved. Approving PR.'',
                       comments = None \<rparr>] \<rparr>)"
proof -
  have m: "mapCommentsToDiff_p0 (parseDiff example_world) ''diff'' [example_comment]
      = [example_mapped]"
    by code_simp
  have r: "run_main_p0 example_world None =
       (Inr (),
        \<lparr> cacheFile = Some \<lparr> last_commit = ''c2'', previous_comments = [] \<rparr>,
          calls = [GetPrDetails,
                   SaveReviewCache
                     \<lparr> last_commit = ''954e5d43af10d2cb37a6621cd0d3c609f408e91a'',
                       previous_comments = [] \<rparr>,
                   LoadReviewCache,
                   GetDiffFromCommits ''954e5d43af10d2cb37a6621cd0d3c609f408e91a'' ''c2'',
                   GenerateCommentsFromLLM ''diff'',
                   SaveReviewCache \<lparr> last_commit = ''c2'', previous_comments = [] \<rparr>,
                   PostReview
                     \<lparr> event = ''APPROVE'',
                       review_body =
                         Some ''Automated review: All previous issues are resolved. Approving PR.'',
                       comments = None \<rparr>] \<rparr>)"
    by (simp add: run_main_p0_eq llm_answer_def submitReview_payload_p0_def example_world_def
        Let_def)
  show ?thesis using m r by simp
qed

section \<open>The payload of a review\<close>

lemma main_posts:
  "PostReview p \<in> set (calls (snd (run_main w cache))) \<Longrightarrow>
     (event p = ''APPROVE'' \<and> comments p = None)
     \<or> (\<exists>cs. event p = ''REQUEST_CHANGES'' \<and> comments p = Some cs \<and> cs \<noteq> [])"
  by (auto simp: run_main_eq decide_eq review_of_def Let_def
      split: option.splits sum.splits if_splits)

lemma main_p0_posts:
  "PostReview p \<in> set (calls (snd (run_main_p0 w cache))) \<Longrightarrow>
     (event p = ''APPROVE'' \<and> comments p = None)
     \<or> (\<exists>cs. event p = ''REQUEST_CHANGES'' \<and> comments p = Some cs \<and> cs \<noteq> [])"
  using main_p0_calls [of "''''" "''''" w cache p] by blast

lemma main_old_posts:
  "PostReview p \<in> set (calls (snd (run_main_old w))) \<Longrightarrow>
     (event p = ''APPROVE'' \<and> comments p = None)
     \<or> (\<exists>cs. event p = ''REQUEST_CHANGES'' \<and> comments p = Some cs \<and> cs \<noteq> [])"
  by (auto simp: run_main_old_def main_old_def bind_io_def getPrDiff_def
      generateCommentsFromLLM_def submitReview_old_def submitReview_payload_old_def
      post_review_def called_def Let_def
      split: option.splits sum.splits if_splits)

text \<open>
  C9. A payload with event \<^verbatim>\<open>APPROVE\<close> has no comments list, whether built by the
  current \<^verbatim>\<open>submitReview\<close>, by \<^verbatim>\<open>approvePullRequest\<close>, by the \<^verbatim>\<open>submitReview\<close> of
  \<^verbatim>\<open>part_000\<close> or by the oldest \<^verbatim>\<open>submitReview\<close>, for every argument. The current
  \<^verbatim>\<open>submitReview\<close> (and that of \<^verbatim>\<open>part_000\<close>) puts a comments list in the payload exactly
  when the event is \<^verbatim>\<open>REQUEST_CHANGES\<close> or \<^verbatim>\<open>COMMENT\<close> and the list given is not empty.
  Every review that a run of the current \<^verbatim>\<open>main\<close>, of the \<^verbatim>\<open>main\<close> of \<^verbatim>\<open>part_000\<close> or of
  the oldest \<^verbatim>\<open>main\<close> posts, in any world, is an approval without a comments list or a
  request for changes with a non-empty one.
\<close>

theorem comments_in_payload:
  "comments (submitReview_payload mappedComments ''APPROVE'') = None
   \<and> event (approvePullRequest_payload body_arg) = ''APPROVE''
   \<and> comments (approvePullRequest_payload body_arg) = None
   \<and> comments (submitReview_payload_p0 mappedComments ''APPROVE'') = None
   \<and> comments (submitReview_payload_old mappedComments ''APPROVE'') = None
   \<and> event (submitReview_payload mappedComments mode) = mode
   \<and> event (submitReview_payload_p0 mappedComments mode) = mode
   \<and> event (submitReview_payload_old mappedComments mode) = mode
   \<and> (comments (submitReview_payload mappedComments mode) = Some cs \<longleftrightarrow>
        (mode = ''REQUEST_CHANGES'' \<or> mode = ''COMMENT'') \<and> mappedComments = Some cs \<and> cs \<noteq> [])
   \<and> (comments (submitReview_payload_p0 mappedComments mode) = Some cs \<longleftrightarrow>
        (mode = ''REQUEST_CHANGES'' \<or> mode = ''COMMENT'') \<and> mappedComments = Some cs \<and> cs \<noteq> [])
   \<and> (PostReview p \<in> set (calls (snd (run_main w cache))) \<longrightarrow>
        (event p = ''APPROVE'' \<and> comments p = None)
        \<or> (\<exists>cs'. event p = ''REQUEST_CHANGES'' \<and> comments p = Some cs' \<and> cs' \<noteq> []))
   \<and> (PostReview p \<in> set (calls (snd (run_main_p0 w cache))) \<longrightarrow>
        (event p = ''APPROVE'' \<and> comments p = None)
        \<or> (\<exists>cs'. event p = ''REQUEST_CHANGES'' \<and> comments p = Some cs' \<and> cs' \<noteq> []))
   \<and> (PostReview p \<in> set (calls (snd (run_main_old w))) \<longrightarrow>
        (event p = ''APPROVE'' \<and> comments p = None)
        \<or> (\<exists>cs'. event p = ''REQUEST_CHANGES'' \<and> comments p = Some cs' \<and> cs' \<noteq> []))"
proof -
  have a: "comments (submitReview_payload mappedComments mode) = Some cs \<longleftrightarrow>
        (mode = ''REQUEST_CHANGES'' \<or> mode = ''COMMENT'') \<and> mappedComments = Some cs \<and> cs \<noteq> []"
    by (cases mappedComments) (auto simp: submitReview_payload_def)
  have b: "comments (submitReview_payload_p0 mappedComments mode) = Some cs \<longleftrightarrow>
        (mode = ''REQUEST_CHANGES'' \<or> mode = ''COMMENT'') \<and> mappedComments = Some cs \<and> cs \<noteq> []"
    by (cases mappedComments) (auto simp: submitReview_payload_p0_def)
  have c1: "PostReview p \<in> set (calls (snd (run_main w cache))) \<longrightarrow>
        (event p = ''APPROVE'' \<and> comments p = None)
        \<or> (\<exists>cs'. event p = ''REQUEST_CHANGES'' \<and> comments p = Some cs' \<and> cs' \<noteq> [])"
    using main_posts [of p w cache] by blast
  have c2: "PostReview p \<in> set (calls (snd (run_main_p0 w cache))) \<longrightarrow>
        (event p = ''APPROVE'' \<and> comments p = None)
        \<or> (\<exists>cs'. event p = ''REQUEST_CHANGES'' \<and> comments p = Some cs' \<and> cs' \<noteq> [])"
    using main_p0_posts [of p w cache] by blast
  have c3: "PostReview p \<in> set (calls (snd (run_main_old w))) \<longrightarrow>
        (event p = ''APPROVE'' \<and> comments p = None)
        \<or> (\<exists>cs'. event p = ''REQUEST_CHANGES'' \<and> comments p = Some cs' \<and> cs' \<noteq> [])"
    using main_old_posts [of p w] by blast
  have d: "comments (submitReview_payload mappedComments ''APPROVE'') = None
   \<and> event (approvePullRequest_payload body_arg) = ''APPROVE''
   \<and> comments (approvePullRequest_payload body_arg) = None
   \<and> comments (submitReview_payload_p0 mappedComments ''APPROVE'') = None
   \<and> comments (submitReview_payload_old mappedComments ''APPROVE'') = None"
    by (simp add: submitReview_payload_def approvePullRequest_payload_def
        submitReview_payload_p0_def submitReview_payload_old_def Let_def)
  have e: "event (submitReview_payload mappedComments mode) = mode
   \<and> event (submitReview_payload_p0 mappedComments mode) = mode
   \<and> event (submitReview_payload_old mappedComments mode) = mode"
    by (simp add: submitReview_payload_def submitReview_payload_p0_def
        submitReview_payload_old_def)
  show ?thesis using a b c1 c2 c3 d e by simp
qed

theorem comments_in_payload_witness:
  "comments (submitReview_payload (Some [example_mapped]) ''REQUEST_CHANGES'')
     = Some [example_mapped]
   \<and> comments (submitReview_payload (Some []) ''REQUEST_CHANGES'') = None
   \<and> comments (submitReview_payload (Some [example_mapped]) ''APPROVE'') = None
   \<and> PostReview (review_of [example_mapped])
       \<in> set (calls (snd (run_main example_world None)))
   \<and> event (review_of [example_mapped]) = ''REQUEST_CHANGES''
   \<and> comments (review_of [example_mapped]) = Some [example_mapped]
   \<and> PostReview (submitReview_payload_p0 None ''APPROVE'')
       \<in> set (calls (snd (run_main_p0 example_world None)))
   \<and> event (submitReview_payload_p0 None ''APPROVE'') = ''APPROVE''
   \<and> comments (submitReview_payload_p0 None ''APPROVE'') = None
   \<and> PostReview (submitReview_payload_old (Some [example_mapped]) ''REQUEST_CHANGES'')
       \<in> set (calls (snd (run_main_old example_world)))
   \<and> event (submitReview_payload_old (Some [example_mapped]) ''REQUEST_CHANGES'')
       = ''REQUEST_CHANGES''
   \<and> comments (submitReview_payload_old (Some [example_mapped]) ''REQUEST_CHANGES'')
       = Some [example_mapped]"
proof -
  let ?old = "submitReview_payload_old (Some [example_mapped]) ''REQUEST_CHANGES''"
  note t1 = comments_in_payload [where mappedComments = "Some [example_mapped]"
      and mode = "''REQUEST_CHANGES''" and cs = "[example_mapped]"
      and p = ?old and w = example_world and cache = None and body_arg = None]
  have m: "mapCommentsToDiff example_parse ''diff'' [example_comment] = [example_mapped]"
    by code_simp
  have mo: "mapCommentsToDiff_old example_parse ''diff'' [example_comment] = [example_mapped]"
    by code_simp
  have mp: "mapCommentsToDiff_p0 example_parse ''diff'' [example_comment] = [example_mapped]"
    by code_simp
  have k: "keep_comment_old example_comment" by code_simp
  have r: "PostReview (review_of [example_mapped])
       \<in> set (calls (snd (run_main example_world None)))"
    using m
    by (simp add: run_main_eq decide_eq baseSha_of_def llm_answer_def open_comments_of_def
        example_world_def Let_def)
  have rp: "PostReview (submitReview_payload_p0 None ''APPROVE'')
       \<in> set (calls (snd (run_main_p0 example_world None)))"
    using mp
    by (simp add: run_main_p0_eq llm_answer_def example_world_def Let_def)
  have ro: "PostReview ?old \<in> set (calls (snd (run_main_old example_world)))"
    using mo k
    by (simp add: run_main_old_def main_old_def bind_io_def getPrDiff_def
        generateCommentsFromLLM_def llm_answer_def submitReview_old_def
        post_review_def called_def Let_def example_world_def)
  have u1: "event (review_of [example_mapped]) = ''REQUEST_CHANGES''
      \<and> comments (review_of [example_mapped]) = Some [example_mapped]"
    using r comments_in_payload [where p = "review_of [example_mapped]"
        and w = example_world and cache = None and mappedComments = None
        and mode = "''APPROVE''" and cs = "[]" and body_arg = None]
    by (auto simp: review_of_def)
  have u2: "event (submitReview_payload_p0 None ''APPROVE'') = ''APPROVE''
      \<and> comments (submitReview_payload_p0 None ''APPROVE'') = None"
    using rp comments_in_payload [where p = "submitReview_payload_p0 None ''APPROVE''"
        and w = example_world and cache = None and mappedComments = None
        and mode = "''APPROVE''" and cs = "[]" and body_arg = None]
    by (auto simp: submitReview_payload_p0_def)
  have u3: "event ?old = ''REQUEST_CHANGES'' \<and> comments ?old = Some [example_mapped]"
    using ro t1 by (auto simp: submitReview_payload_old_def)
  have n: "comments (submitReview_payload (Some []) ''REQUEST_CHANGES'') = None"
  proof (cases "comments (submitReview_payload (Some []) ''REQUEST_CHANGES'')")
    case None
    then show ?thesis .
  next
    case (Some cs)
    then show ?thesis
      using comments_in_payload [where mappedComments = "Some []"
          and mode = "''REQUEST_CHANGES''" and cs = cs and p = ?old and w = example_world
          and cache = None and body_arg = None]
      by auto
  qed
  have a1: "comments (submitReview_payload (Some [example_mapped]) ''REQUEST_CHANGES'')
     = Some [example_mapped]"
    using t1 by simp
  have a2: "comments (submitReview_payload (Some [example_mapped]) ''APPROVE'') = None"
    using t1 by simp
  show ?thesis using a1 n a2 r u1 rp u2 ro u3 by simp
qed

text \<open>
  The oldest \<^verbatim>\<open>submitReview\<close> does not test the list itself: it puts the list it is
  given in every \<^verbatim>\<open>REQUEST_CHANGES\<close> payload and in no other. The test is in its only
  caller, the oldest \<^verbatim>\<open>main\<close> (\<^verbatim>\<open>if (mapped.length > 0)\<close>, line 523), which is why no
  review posted carries an empty list.
\<close>

lemma submitReview_payload_old_comments:
  "comments (submitReview_payload_old mappedComments mode)
     = (if mode = ''REQUEST_CHANGES'' then mappedComments else None)"
  by (simp add: submitReview_payload_old_def)

end
